theory Spec2Isabelle
  imports Main "HOL-Library.AList"
begin

section \<open>The relay server: data model\<close>

text \<open>
  The server keeps three process-wide variables: \<^verbatim>\<open>hostSocketId\<close>,
  \<^verbatim>\<open>pendingRequests\<close> and \<^verbatim>\<open>hostUploadBuffers\<close>. Every socket handler, every
  timer callback and the upload route runs to completion on one thread, so each is a
  function from the state to the new state and the list of messages it emits, in order.
  Socket ids and request ids are JavaScript strings.
\<close>

type_synonym sid = string
type_synonym rid = string

text \<open>
  The values \<^verbatim>\<open>hostSocketId\<close> can hold, and the rooms \<^verbatim>\<open>io.to\<close> is called with:
  \<^verbatim>\<open>null\<close> (the initial value, and after give-up-host or the host's disconnect), a
  socket id, or \<^verbatim>\<open>undefined\<close> (the field \<^verbatim>\<open>requester\<close> read from a value
  that has none).
\<close>

datatype jsid = Null | Undefined | Sock sid

text \<open>JavaScript truthiness, as tested by \<^verbatim>\<open>!hostSocketId\<close> and \<^verbatim>\<open>if (hostSocketId)\<close>:
  the empty string is falsy as well.\<close>

fun truthy :: "jsid \<Rightarrow> bool" where
  "truthy Null = False"
| "truthy Undefined = False"
| "truthy (Sock c) = (c \<noteq> [])"

text \<open>
  \<^verbatim>\<open>pendingRequests\<close> and \<^verbatim>\<open>hostUploadBuffers\<close> are object literals \<^verbatim>\<open>{}\<close>, so a
  read \<^verbatim>\<open>obj[key]\<close> that finds no own property goes on to \<^verbatim>\<open>Object.prototype\<close>.
  The table lists the property names found there, each with the \<^verbatim>\<open>length\<close> of its value
  (the arity of the built-in function; \<^verbatim>\<open>__proto__\<close> reads as \<^verbatim>\<open>Object.prototype\<close>
  itself, which has no \<^verbatim>\<open>length\<close>). All of these values are truthy, none has a field
  \<^verbatim>\<open>timeout\<close>, \<^verbatim>\<open>requester\<close> or \<^verbatim>\<open>push\<close>, and none is enumerable, so a
  \<^verbatim>\<open>for ... in\<close> loop visits own properties only.
\<close>

definition object_prototype :: "(string \<times> nat option) list" where
  "object_prototype =
     [(''constructor'', Some 1),
      (''__defineGetter__'', Some 2),
      (''__defineSetter__'', Some 2),
      (''hasOwnProperty'', Some 1),
      (''__lookupGetter__'', Some 1),
      (''__lookupSetter__'', Some 1),
      (''isPrototypeOf'', Some 1),
      (''propertyIsEnumerable'', Some 1),
      (''toString'', Some 0),
      (''valueOf'', Some 0),
      (''__proto__'', None),
      (''toLocaleString'', Some 0)]"

datatype 'v property = Own 'v | Inherited "nat option" | Absent

definition js_get :: "(string \<times> 'v) list \<Rightarrow> string \<Rightarrow> 'v property" where
  "js_get obj k =
     (case map_of obj k of
        Some v \<Rightarrow> Own v
      | None \<Rightarrow> (case map_of object_prototype k of
                   Some len \<Rightarrow> Inherited len
                 | None \<Rightarrow> Absent))"

text \<open>
  A pending request \<^verbatim>\<open>{ timeout, requester }\<close>. The timeout object is a handle into
  the runtime's table of active timers; the callback given to \<^verbatim>\<open>setTimeout\<close> closes
  over \<^verbatim>\<open>socket.id\<close> and \<^verbatim>\<open>requestId\<close>.
\<close>

record pending =
  timeout :: nat
  requester :: sid

record timer =
  due :: nat
  cb_socket :: sid
  cb_request :: rid

record asset =
  url :: string
  name :: string
  ident :: string
  sender :: sid

text \<open>
  The state: the three variables of the server, the runtime's table of active timers with the next
  free handle and the clock in milliseconds, and the environment variable
  \<^verbatim>\<open>PUBLIC_URL\<close>. The two objects are association lists in insertion order, which is
  the order \<^verbatim>\<open>for ... in\<close> visits string keys that are not array indices (a uuid
  never is one).
\<close>

record state =
  hostSocketId :: jsid
  pendingRequests :: "(rid \<times> pending) list"
  hostUploadBuffers :: "(string \<times> asset list) list"
  timers :: "(nat \<times> timer) list"
  next_timer :: nat
  now :: nat
  PUBLIC_URL :: "string option"

definition initial :: "string option \<Rightarrow> state" where
  "initial env =
     \<lparr>hostSocketId = Null, pendingRequests = [], hostUploadBuffers = [],
      timers = [], next_timer = 0, now = 0, PUBLIC_URL = env\<rparr>"

subsection \<open>Messages\<close>

text \<open>The \<^verbatim>\<open>parts\<close> field of an outgoing product-upload-complete: a flushed buffer, the
  built-in value a flush read from the prototype, or the client's own \<^verbatim>\<open>data.parts\<close>
  of a browse-selection.\<close>

datatype 'p parts = Parts "asset list" | Builtin string | Selected 'p

datatype 'p event =
    HostChanged jsid
  | HostTransferRequest rid sid
  | TransferDenied rid
  | HostRequestCancelled rid
  | ModelTransform 'p
  | CameraUpdate 'p
  | ResetAll 'p
  | ProductUploadComplete "'p parts" sid
  | HostPointerToggle 'p
  | HostPointerUpdate 'p

text \<open>The three ways the server emits: \<^verbatim>\<open>io.emit\<close>, \<^verbatim>\<open>socket.broadcast.emit\<close> and
  \<^verbatim>\<open>io.to(room).emit\<close>.\<close>

datatype 'p emission =
    IoEmit "'p event"
  | SocketBroadcast sid "'p event"
  | IoTo jsid "'p event"

text \<open>Who receives an emission, among the connected sockets: socket.io puts every socket
  in the room named by its own id, and in no other room here.\<close>

fun recipients :: "sid set \<Rightarrow> 'p emission \<Rightarrow> sid set" where
  "recipients conns (IoEmit e) = conns"
| "recipients conns (SocketBroadcast c e) = conns - {c}"
| "recipients conns (IoTo r e) = {x \<in> conns. Sock x = r}"

fun payload :: "'p emission \<Rightarrow> 'p event" where
  "payload (IoEmit e) = e"
| "payload (SocketBroadcast c e) = e"
| "payload (IoTo r e) = e"

section \<open>The socket handlers\<close>

definition clearTimeout :: "nat \<Rightarrow> state \<Rightarrow> state" where
  "clearTimeout t s = s\<lparr>timers := AList.delete t (timers s)\<rparr>"

definition register_host :: "sid \<Rightarrow> state \<Rightarrow> state \<times> 'p emission list" where
  "register_host c s =
     (s\<lparr>hostSocketId := Sock c\<rparr>, [IoEmit (HostChanged (Sock c))])"

text \<open>request-host; \<open>uuid\<close> is what \<^verbatim>\<open>uuidv4()\<close> returns in the third branch.\<close>

definition request_host :: "sid \<Rightarrow> rid \<Rightarrow> state \<Rightarrow> state \<times> 'p emission list" where
  "request_host c uuid s =
     (if \<not> truthy (hostSocketId s) then
        (s\<lparr>hostSocketId := Sock c\<rparr>, [IoEmit (HostChanged (Sock c))])
      else if hostSocketId s = Sock c then (s, [])
      else
        (s\<lparr>timers := AList.update (next_timer s)
                \<lparr>due = now s + 30000, cb_socket = c, cb_request = uuid\<rparr> (timers s),
           next_timer := Suc (next_timer s),
           pendingRequests :=
             AList.update uuid \<lparr>timeout = next_timer s, requester = c\<rparr> (pendingRequests s)\<rparr>,
         [IoTo (hostSocketId s) (HostTransferRequest uuid c)]))"

text \<open>The callback of the timer with handle \<open>t\<close>. The runtime runs it once, not before
  it is due, and only while the timer is active; otherwise nothing happens.\<close>

definition timeout_fires :: "nat \<Rightarrow> state \<Rightarrow> state \<times> 'p emission list" where
  "timeout_fires t s =
     (case map_of (timers s) t of
        None \<Rightarrow> (s, [])
      | Some tm \<Rightarrow>
          if now s < due tm then (s, [])
          else
            (s\<lparr>timers := AList.delete t (timers s),
               hostSocketId := Sock (cb_socket tm),
               pendingRequests := AList.delete (cb_request tm) (pendingRequests s)\<rparr>,
             [IoEmit (HostChanged (Sock (cb_socket tm)))]))"

text \<open>release-host and deny-host. With an inherited value, \<^verbatim>\<open>timeout\<close> and
  \<^verbatim>\<open>requester\<close> are both \<^verbatim>\<open>undefined\<close>: \<^verbatim>\<open>clearTimeout(undefined)\<close> and the
  \<^verbatim>\<open>delete\<close> of a name that is no own property do nothing.\<close>

definition release_host :: "rid \<Rightarrow> state \<Rightarrow> state \<times> 'p emission list" where
  "release_host requestId s =
     (case js_get (pendingRequests s) requestId of
        Own p \<Rightarrow>
          ((clearTimeout (timeout p) s)
             \<lparr>hostSocketId := Sock (requester p),
              pendingRequests := AList.delete requestId (pendingRequests s)\<rparr>,
           [IoEmit (HostChanged (Sock (requester p)))])
      | Inherited len \<Rightarrow>
          (s\<lparr>hostSocketId := Undefined\<rparr>, [IoEmit (HostChanged Undefined)])
      | Absent \<Rightarrow> (s, []))"

definition deny_host :: "rid \<Rightarrow> state \<Rightarrow> state \<times> 'p emission list" where
  "deny_host requestId s =
     (case js_get (pendingRequests s) requestId of
        Own p \<Rightarrow>
          ((clearTimeout (timeout p) s)
             \<lparr>pendingRequests := AList.delete requestId (pendingRequests s)\<rparr>,
           [IoTo (Sock (requester p)) (TransferDenied requestId)])
      | Inherited len \<Rightarrow> (s, [IoTo Undefined (TransferDenied requestId)])
      | Absent \<Rightarrow> (s, []))"

text \<open>The loop of cancel-host-request over the keys of \<^verbatim>\<open>pendingRequests\<close>: a key
  deleted before it is reached is skipped.\<close>

fun cancel_loop :: "sid \<Rightarrow> rid list \<Rightarrow> state \<Rightarrow> 'p emission list \<Rightarrow> state \<times> 'p emission list" where
  "cancel_loop c [] s out = (s, out)"
| "cancel_loop c (reqId # ks) s out =
     (case map_of (pendingRequests s) reqId of
        None \<Rightarrow> cancel_loop c ks s out
      | Some p \<Rightarrow>
          if requester p = c then
            cancel_loop c ks
              ((clearTimeout (timeout p) s)
                 \<lparr>pendingRequests := AList.delete reqId (pendingRequests s)\<rparr>)
              (if truthy (hostSocketId s)
               then out @ [IoTo (hostSocketId s) (HostRequestCancelled reqId)]
               else out)
          else cancel_loop c ks s out)"

definition cancel_host_request :: "sid \<Rightarrow> state \<Rightarrow> state \<times> 'p emission list" where
  "cancel_host_request c s = cancel_loop c (map fst (pendingRequests s)) s []"

definition give_up_host :: "sid \<Rightarrow> state \<Rightarrow> state \<times> 'p emission list" where
  "give_up_host c s =
     (if Sock c = hostSocketId s
      then (s\<lparr>hostSocketId := Null\<rparr>, [IoEmit (HostChanged Null)])
      else (s, []))"

definition model_transform :: "sid \<Rightarrow> 'p \<Rightarrow> state \<Rightarrow> state \<times> 'p emission list" where
  "model_transform c modelState s =
     (if Sock c = hostSocketId s
      then (s, [SocketBroadcast c (ModelTransform modelState)])
      else (s, []))"

definition camera_update :: "sid \<Rightarrow> 'p \<Rightarrow> state \<Rightarrow> state \<times> 'p emission list" where
  "camera_update c cameraState s =
     (if Sock c = hostSocketId s
      then (s, [SocketBroadcast c (CameraUpdate cameraState)])
      else (s, []))"

definition reset_all :: "sid \<Rightarrow> 'p \<Rightarrow> state \<Rightarrow> state \<times> 'p emission list" where
  "reset_all c resetAll s =
     (if Sock c = hostSocketId s
      then (s, [SocketBroadcast c (ResetAll resetAll)])
      else (s, []))"

text \<open>product-upload-complete: \<^verbatim>\<open>hostUploadBuffers[uploaderId] || []\<close>, then the test of
  its \<^verbatim>\<open>length\<close>.\<close>

definition product_upload_complete :: "sid \<Rightarrow> state \<Rightarrow> state \<times> 'p emission list" where
  "product_upload_complete c s =
     (case js_get (hostUploadBuffers s) c of
        Own partsBuffer \<Rightarrow>
          if length partsBuffer > 0 then
            (s\<lparr>hostUploadBuffers := AList.update c [] (hostUploadBuffers s)\<rparr>,
             [IoEmit (ProductUploadComplete (Parts partsBuffer) c)])
          else (s, [])
      | Inherited len \<Rightarrow>
          (case len of
             Some n \<Rightarrow>
               if n > 0 then
                 (s\<lparr>hostUploadBuffers := AList.update c [] (hostUploadBuffers s)\<rparr>,
                  [IoEmit (ProductUploadComplete (Builtin c) c)])
               else (s, [])
           | None \<Rightarrow> (s, []))
      | Absent \<Rightarrow> (s, []))"

definition host_pointer_toggle :: "sid \<Rightarrow> 'p \<Rightarrow> state \<Rightarrow> state \<times> 'p emission list" where
  "host_pointer_toggle c d s = (s, [SocketBroadcast c (HostPointerToggle d)])"

definition host_pointer_update :: "sid \<Rightarrow> 'p \<Rightarrow> state \<Rightarrow> state \<times> 'p emission list" where
  "host_pointer_update c d s = (s, [SocketBroadcast c (HostPointerUpdate d)])"

text \<open>disconnect: the host test first, then the loop over the keys.\<close>

fun disconnect_loop :: "sid \<Rightarrow> rid list \<Rightarrow> state \<Rightarrow> state" where
  "disconnect_loop c [] s = s"
| "disconnect_loop c (reqId # ks) s =
     (case map_of (pendingRequests s) reqId of
        None \<Rightarrow> disconnect_loop c ks s
      | Some p \<Rightarrow>
          if requester p = c then
            disconnect_loop c ks
              ((clearTimeout (timeout p) s)
                 \<lparr>pendingRequests := AList.delete reqId (pendingRequests s)\<rparr>)
          else disconnect_loop c ks s)"

definition disconnect :: "sid \<Rightarrow> state \<Rightarrow> state \<times> 'p emission list" where
  "disconnect c s =
     (let s1 = (if Sock c = hostSocketId s then s\<lparr>hostSocketId := Null\<rparr> else s);
          out = (if Sock c = hostSocketId s then [IoEmit (HostChanged Null)] else [])
      in (disconnect_loop c (map fst (pendingRequests s1)) s1, out))"

definition browse_selection :: "sid \<Rightarrow> 'p \<Rightarrow> state \<Rightarrow> state \<times> 'p emission list" where
  "browse_selection c data_parts s =
     (if Sock c = hostSocketId s
      then (s, [IoEmit (ProductUploadComplete (Selected data_parts) c)])
      else (s, []))"

section \<open>The upload route\<close>

text \<open>What \<^verbatim>\<open>POST /upload\<close> reads of a request: the stored file's original name (multer
  is configured to keep it as the file name), the two custom headers, and the protocol and
  Host header used when \<^verbatim>\<open>PUBLIC_URL\<close> is not set.\<close>

record request =
  req_file :: "string option"
  x_socket_id :: "string option"
  x_uploader_role :: "string option"
  protocol :: string
  host_header :: string

datatype response = BadRequest | ServerError | Json string string

text \<open>\<^verbatim>\<open>a || b\<close> on an optional string: an absent or empty \<open>a\<close> gives \<open>b\<close>.\<close>

fun or_else :: "string option \<Rightarrow> string \<Rightarrow> string" where
  "or_else None d = d"
| "or_else (Some a) d = (if a = [] then d else a)"

text \<open>The absolute URL of the stored file and the object pushed on the buffer; \<open>uuid\<close>
  is what \<^verbatim>\<open>uuidv4()\<close> returns for the entry.\<close>

definition fileUrl :: "state \<Rightarrow> request \<Rightarrow> string \<Rightarrow> string" where
  "fileUrl s req filename =
     or_else (PUBLIC_URL s) (protocol req @ ''://'' @ host_header req) @ ''/uploads/'' @ filename"

definition buffered :: "state \<Rightarrow> request \<Rightarrow> string \<Rightarrow> string \<Rightarrow> sid \<Rightarrow> asset" where
  "buffered s req originalname uuid uploaderId =
     \<lparr>url = fileUrl s req originalname, name = originalname, ident = uuid,
      sender = uploaderId\<rparr>"

text \<open>Where the buffer read is an inherited value, \<^verbatim>\<open>push\<close> is not a function, the
  handler throws and the framework answers 500.\<close>

definition upload :: "request \<Rightarrow> string \<Rightarrow> state \<Rightarrow> state \<times> response" where
  "upload req uuid s =
     (case req_file req of
        None \<Rightarrow> (s, BadRequest)
      | Some originalname \<Rightarrow>
          let uploaderRole = or_else (x_uploader_role req) ''viewer'';
              ok = Json (fileUrl s req originalname) originalname
          in
            (case x_socket_id req of
               None \<Rightarrow> (s, ok)
             | Some uploaderId \<Rightarrow>
                 if uploaderRole = ''host'' \<and> uploaderId \<noteq> [] then
                   (case js_get (hostUploadBuffers s) uploaderId of
                      Own buf \<Rightarrow>
                        (s\<lparr>hostUploadBuffers :=
                             AList.update uploaderId
                               (buf @ [buffered s req originalname uuid uploaderId])
                               (hostUploadBuffers s)\<rparr>,
                         ok)
                    | Absent \<Rightarrow>
                        (s\<lparr>hostUploadBuffers :=
                             AList.update uploaderId
                               [buffered s req originalname uuid uploaderId]
                               (hostUploadBuffers s)\<rparr>,
                         ok)
                    | Inherited len \<Rightarrow> (s, ServerError))
                 else (s, ok)))"

section \<open>Runs\<close>

text \<open>Everything that can happen to the server: a message from a connected socket, a
  timer coming due, an upload, and the passing of time.\<close>

datatype 'p message =
    RegisterHost
  | RequestHost rid
  | ReleaseHost rid
  | DenyHost rid
  | CancelHostRequest
  | GiveUpHost
  | ModelTransformMsg 'p
  | CameraUpdateMsg 'p
  | ResetAllMsg 'p
  | ProductUploadCompleteMsg
  | HostPointerToggleMsg 'p
  | HostPointerUpdateMsg 'p
  | Disconnect
  | BrowseSelection 'p

datatype 'p input =
    From sid "'p message"
  | TimerFires nat
  | Upload request string
  | Advance nat

fun handle :: "sid \<Rightarrow> 'p message \<Rightarrow> state \<Rightarrow> state \<times> 'p emission list" where
  "handle c RegisterHost s = register_host c s"
| "handle c (RequestHost uuid) s = request_host c uuid s"
| "handle c (ReleaseHost r) s = release_host r s"
| "handle c (DenyHost r) s = deny_host r s"
| "handle c CancelHostRequest s = cancel_host_request c s"
| "handle c GiveUpHost s = give_up_host c s"
| "handle c (ModelTransformMsg d) s = model_transform c d s"
| "handle c (CameraUpdateMsg d) s = camera_update c d s"
| "handle c (ResetAllMsg d) s = reset_all c d s"
| "handle c ProductUploadCompleteMsg s = product_upload_complete c s"
| "handle c (HostPointerToggleMsg d) s = host_pointer_toggle c d s"
| "handle c (HostPointerUpdateMsg d) s = host_pointer_update c d s"
| "handle c Disconnect s = disconnect c s"
| "handle c (BrowseSelection d) s = browse_selection c d s"

fun step :: "'p input \<Rightarrow> state \<Rightarrow> state \<times> 'p emission list" where
  "step (From c m) s = handle c m s"
| "step (TimerFires t) s = timeout_fires t s"
| "step (Upload req uuid) s = (fst (upload req uuid s), [])"
| "step (Advance d) s = (s\<lparr>now := now s + d\<rparr>, [])"

fun run :: "'p input list \<Rightarrow> state \<Rightarrow> state \<times> 'p emission list" where
  "run [] s = (s, [])"
| "run (i # is) s =
     (case step i s of (s1, out1) \<Rightarrow>
        (case run is s1 of (s2, out2) \<Rightarrow> (s2, out1 @ out2)))"

section \<open>Assumptions on the environment and the invariant of the state\<close>

text \<open>
  \<^verbatim>\<open>uuidv4()\<close> is a library call: it returns a string of 36 characters (so never a
  name found on \<^verbatim>\<open>Object.prototype\<close>, and never an array index), and the results
  below take it to be a key not in use in \<^verbatim>\<open>pendingRequests\<close>. A run is fresh when
  every request-host in it is given such a value.
\<close>

definition uuid_ok :: "rid \<Rightarrow> state \<Rightarrow> bool" where
  "uuid_ok uuid s \<longleftrightarrow> length uuid = 36 \<and> uuid \<notin> set (map fst (pendingRequests s))"

fun fresh_input :: "'p input \<Rightarrow> state \<Rightarrow> bool" where
  "fresh_input (From c (RequestHost uuid)) s = uuid_ok uuid s"
| "fresh_input i s = True"

fun fresh_run :: "'p input list \<Rightarrow> state \<Rightarrow> bool" where
  "fresh_run [] s = True"
| "fresh_run (i # is) s = (fresh_input i s \<and> fresh_run is (fst (step i s)))"

text \<open>
  The invariant that ties \<^verbatim>\<open>pendingRequests\<close> to the active timers: request ids and
  timer handles are unique, every pending request holds the handle of an active timer whose
  callback closes over that request's id and requester, every active timer belongs to such
  a request, and every handle handed out lies below the next free one.
\<close>

definition coherent :: "state \<Rightarrow> bool" where
  "coherent s \<longleftrightarrow>
     distinct (map fst (pendingRequests s)) \<and>
     distinct (map fst (timers s)) \<and>
     list_all (\<lambda>(k, p). case map_of (timers s) (timeout p) of
                 None \<Rightarrow> False
               | Some tm \<Rightarrow> cb_socket tm = requester p \<and> cb_request tm = k)
       (pendingRequests s) \<and>
     list_all (\<lambda>(t, tm). t < next_timer s \<and>
                 map_of (pendingRequests s) (cb_request tm)
                   = Some \<lparr>timeout = t, requester = cb_socket tm\<rparr>)
       (timers s)"

text \<open>What the loops of cancel-host-request and disconnect come to: the requests of a
  socket, the others, and the timer table without a list of handles.\<close>

definition drop_timers :: "nat list \<Rightarrow> (nat \<times> timer) list \<Rightarrow> (nat \<times> timer) list" where
  "drop_timers ts tms = filter (\<lambda>(t, tm). t \<notin> set ts) tms"

definition requested_by :: "sid \<Rightarrow> (rid \<times> pending) list \<Rightarrow> (rid \<times> pending) list" where
  "requested_by c ps = filter (\<lambda>(k, p). requester p = c) ps"

definition not_requested_by :: "sid \<Rightarrow> (rid \<times> pending) list \<Rightarrow> (rid \<times> pending) list" where
  "not_requested_by c ps = filter (\<lambda>(k, p). requester p \<noteq> c) ps"

text \<open>Example data: two request ids as \<^verbatim>\<open>uuidv4()\<close> writes them, and the state in
  which socket \<open>a\<close> is the host and nothing else has happened.\<close>

definition uuid1 :: rid where
  "uuid1 = ''11111111-1111-4111-8111-111111111111''"

definition uuid2 :: rid where
  "uuid2 = ''22222222-2222-4222-8222-222222222222''"

definition hosted :: "sid \<Rightarrow> state" where
  "hosted a = (initial None)\<lparr>hostSocketId := Sock a\<rparr>"

text \<open>A request \<open>uuid\<close> of socket \<open>b\<close> is armed when it is pending with timer handle
  \<open>t\<close> and that timer is active, due at \<open>d\<close>, with the callback of this request.\<close>

definition armed :: "rid \<Rightarrow> nat \<Rightarrow> sid \<Rightarrow> nat \<Rightarrow> state \<Rightarrow> bool" where
  "armed uuid t b d s \<longleftrightarrow>
     map_of (pendingRequests s) uuid = Some \<lparr>timeout = t, requester = b\<rparr> \<and>
     map_of (timers s) t = Some \<lparr>due = d, cb_socket = b, cb_request = uuid\<rparr>"

text \<open>The inputs that take such a request away: its release or denial, a
  cancel-host-request or the disconnect of its requester, and its own timer.\<close>

fun removes :: "sid \<Rightarrow> rid \<Rightarrow> nat \<Rightarrow> 'p input \<Rightarrow> bool" where
  "removes b uuid t (From c (ReleaseHost r)) = (r = uuid)"
| "removes b uuid t (From c (DenyHost r)) = (r = uuid)"
| "removes b uuid t (From c CancelHostRequest) = (c = b)"
| "removes b uuid t (From c Disconnect) = (c = b)"
| "removes b uuid t (TimerFires t') = (t' = t)"
| "removes b uuid t i = False"

text \<open>Example: \<open>B\<close> asks for the role while \<open>A\<close> holds it; meanwhile \<open>C\<close> asks too and is
  denied, the host moves a model, and thirty seconds pass.\<close>

definition contested :: state where
  "contested = fst (request_host ''B'' uuid1 (hosted ''A'') :: state \<times> nat emission list)"

definition meanwhile :: "nat input list" where
  "meanwhile =
     [From ''C'' (RequestHost uuid2), From ''A'' (DenyHost uuid2),
      From ''A'' (ModelTransformMsg 5), Advance 30000]"

text \<open>A timer handle is dead when it has been handed out and is not active.\<close>

definition dead :: "nat \<Rightarrow> state \<Rightarrow> bool" where
  "dead t s \<longleftrightarrow> t < next_timer s \<and> map_of (timers s) t = None"

text \<open>Example: what may follow a cancelled request.\<close>

definition later :: "nat input list" where
  "later = [Advance 30000, TimerFires 0, From ''C'' (RequestHost uuid2)]"

text \<open>The host named by the last host-changed in a list of emissions, if there is one:
  what a client that has received them all takes the host to be.\<close>

fun announced :: "'p emission list \<Rightarrow> jsid option" where
  "announced [] = None"
| "announced (e # es) =
     (case announced es of
        Some h \<Rightarrow> Some h
      | None \<Rightarrow> (case payload e of HostChanged h \<Rightarrow> Some h | _ \<Rightarrow> None))"

text \<open>Example: a session in which the role moves from \<open>A\<close> to \<open>B\<close> to \<open>C\<close>.\<close>

definition session :: "nat input list" where
  "session =
     [From ''A'' RegisterHost, From ''B'' (RequestHost uuid1), From ''A'' (ReleaseHost uuid1),
      From ''C'' RegisterHost, From ''B'' GiveUpHost]"

text \<open>A name that is not empty and not found on \<^verbatim>\<open>Object.prototype\<close>. The ids
  socket.io hands out are random strings; the results on upload buffers are stated for
  socket ids that are plain names.\<close>

definition plain_name :: "string \<Rightarrow> bool" where
  "plain_name c \<longleftrightarrow> c \<noteq> [] \<and> map_of object_prototype c = None"

text \<open>The own entry of a socket in \<^verbatim>\<open>hostUploadBuffers\<close>, empty when there is none.\<close>

definition buffer_of :: "state \<Rightarrow> sid \<Rightarrow> asset list" where
  "buffer_of s c = (case map_of (hostUploadBuffers s) c of Some buf \<Rightarrow> buf | None \<Rightarrow> [])"

text \<open>An upload that carries a file, the role header \<^verbatim>\<open>host\<close> and the socket id \<open>c\<close>;
  the entry the route pushes for it; and a list of uploads as inputs.\<close>

definition host_upload :: "sid \<Rightarrow> request \<times> string \<Rightarrow> bool" where
  "host_upload c = (\<lambda>(req, uuid).
     req_file req \<noteq> None \<and> x_uploader_role req = Some ''host'' \<and> x_socket_id req = Some c)"

definition entry_of :: "state \<Rightarrow> sid \<Rightarrow> request \<times> string \<Rightarrow> asset" where
  "entry_of s c = (\<lambda>(req, uuid).
     buffered s req (case req_file req of Some originalname \<Rightarrow> originalname | None \<Rightarrow> [])
       uuid c)"

definition uploads :: "(request \<times> string) list \<Rightarrow> 'p input list" where
  "uploads ups = map (\<lambda>(req, uuid). Upload req uuid) ups"

text \<open>Example: two uploads, and the two entries they leave in the buffer.\<close>

definition chair_request :: "sid \<Rightarrow> request" where
  "chair_request c =
     \<lparr>req_file = Some ''chair.glb'', x_socket_id = Some c, x_uploader_role = Some ''host'',
      protocol = ''http'', host_header = ''localhost:3000''\<rparr>"

definition table_request :: "sid \<Rightarrow> request" where
  "table_request c =
     \<lparr>req_file = Some ''table.glb'', x_socket_id = Some c, x_uploader_role = Some ''host'',
      protocol = ''http'', host_header = ''localhost:3000''\<rparr>"

definition chair :: "sid \<Rightarrow> asset" where
  "chair c = \<lparr>url = ''http://localhost:3000/uploads/chair.glb'', name = ''chair.glb'',
      ident = uuid1, sender = c\<rparr>"

definition table :: "sid \<Rightarrow> asset" where
  "table c = \<lparr>url = ''http://localhost:3000/uploads/table.glb'', name = ''table.glb'',
      ident = uuid2, sender = c\<rparr>"

definition two_uploads :: "sid \<Rightarrow> (request \<times> string) list" where
  "two_uploads c = [(chair_request c, uuid1), (table_request c, uuid2)]"

section \<open>The invariant is kept\<close>

lemma list_all_map_of:
  "distinct (map fst xs) \<Longrightarrow>
     list_all (\<lambda>(k, v). P k v) xs = (\<forall>k v. map_of xs k = Some v \<longrightarrow> P k v)"
  by (auto simp: list_all_iff)

lemma coherent_iff:
  "coherent s \<longleftrightarrow>
     distinct (map fst (pendingRequests s)) \<and>
     distinct (map fst (timers s)) \<and>
     (\<forall>k p. map_of (pendingRequests s) k = Some p \<longrightarrow>
        (\<exists>tm. map_of (timers s) (timeout p) = Some tm \<and>
              cb_socket tm = requester p \<and> cb_request tm = k)) \<and>
     (\<forall>t tm. map_of (timers s) t = Some tm \<longrightarrow>
        t < next_timer s \<and>
        map_of (pendingRequests s) (cb_request tm)
          = Some \<lparr>timeout = t, requester = cb_socket tm\<rparr>)"
proof -
  have a: "(case map_of (timers s) (timeout p) of None \<Rightarrow> False
            | Some tm \<Rightarrow> cb_socket tm = requester p \<and> cb_request tm = k)
         = (\<exists>tm. map_of (timers s) (timeout p) = Some tm \<and>
              cb_socket tm = requester p \<and> cb_request tm = k)" for p k
    by (simp split: option.splits)
  show ?thesis
    unfolding coherent_def a
    by (auto simp: list_all_map_of)
qed

lemma coherent_initial: "coherent (initial env)"
  by (simp add: coherent_def initial_def)

text \<open>Removing a request together with its timer.\<close>

lemma coherent_remove:
  assumes "coherent s" and "map_of (pendingRequests s) k = Some p"
  shows "coherent ((clearTimeout (timeout p) s)
              \<lparr>pendingRequests := AList.delete k (pendingRequests s)\<rparr>)"
proof -
  let ?P = "map_of (pendingRequests s)" and ?T = "map_of (timers s)"
  from assms(1) have d: "distinct (map fst (pendingRequests s))" "distinct (map fst (timers s))"
    unfolding coherent_iff by blast+
  from assms(1) have W3: "\<exists>tm. ?T (timeout q) = Some tm \<and> cb_socket tm = requester q \<and>
      cb_request tm = j" if "?P j = Some q" for j q
    using that unfolding coherent_iff by blast
  from assms(1) have W4: "t < next_timer s \<and>
      ?P (cb_request tm) = Some \<lparr>timeout = t, requester = cb_socket tm\<rparr>"
    if "?T t = Some tm" for t tm
    using that unfolding coherent_iff by blast
  obtain tm0 where tm0: "?T (timeout p) = Some tm0" "cb_request tm0 = k"
    using W3[OF assms(2)] by blast
  have A: "\<exists>tm. (?T(timeout p := None)) (timeout q) = Some tm \<and>
      cb_socket tm = requester q \<and> cb_request tm = j"
    if "(?P(k := None)) j = Some q" for j q
  proof -
    from that have jk: "j \<noteq> k" and pq: "?P j = Some q" by (auto split: if_splits)
    obtain tm where tm: "?T (timeout q) = Some tm" "cb_socket tm = requester q"
      "cb_request tm = j" using W3[OF pq] by blast
    have "timeout q \<noteq> timeout p" using tm tm0 jk by auto
    then show ?thesis using tm by simp
  qed
  have B: "t < next_timer s \<and>
      (?P(k := None)) (cb_request tm) = Some \<lparr>timeout = t, requester = cb_socket tm\<rparr>"
    if "(?T(timeout p := None)) t = Some tm" for t tm
  proof -
    from that have tp: "t \<noteq> timeout p" and tt: "?T t = Some tm" by (auto split: if_splits)
    have "cb_request tm \<noteq> k" using W4[OF tt] assms(2) tp by auto
    then show ?thesis using W4[OF tt] by simp
  qed
  show ?thesis
    unfolding coherent_iff clearTimeout_def
    using d A B by (simp add: distinct_delete delete_conv' del: fun_upd_apply)
qed

lemma coherent_host: "coherent (s\<lparr>hostSocketId := h\<rparr>) = coherent s"
  by (simp add: coherent_def)

lemma coherent_buffers: "coherent (s\<lparr>hostUploadBuffers := b\<rparr>) = coherent s"
  by (simp add: coherent_def)

lemma coherent_now: "coherent (s\<lparr>now := n\<rparr>) = coherent s"
  by (simp add: coherent_def)

lemma coherent_request_host:
  assumes "coherent s" and "uuid_ok uuid s"
  shows "coherent (fst (request_host c uuid s))"
proof -
  let ?P = "map_of (pendingRequests s)" and ?T = "map_of (timers s)"
  let ?n = "next_timer s"
  let ?tm = "\<lparr>due = now s + 30000, cb_socket = c, cb_request = uuid\<rparr>"
  let ?p = "\<lparr>timeout = ?n, requester = c\<rparr>"
  from assms(1) have d: "distinct (map fst (pendingRequests s))" "distinct (map fst (timers s))"
    unfolding coherent_iff by blast+
  from assms(1) have W3: "\<exists>tm. ?T (timeout q) = Some tm \<and> cb_socket tm = requester q \<and>
      cb_request tm = j" if "?P j = Some q" for j q
    using that unfolding coherent_iff by blast
  from assms(1) have W4: "t < next_timer s \<and>
      ?P (cb_request tm) = Some \<lparr>timeout = t, requester = cb_socket tm\<rparr>"
    if "?T t = Some tm" for t tm
    using that unfolding coherent_iff by blast
  have fresh: "?P uuid = None"
    using assms(2) by (simp add: uuid_ok_def map_of_eq_None_iff)
  have nfree: "?T ?n = None"
    using W4[of ?n] by (cases "?T ?n") auto
  have A: "\<exists>tm. (?T(?n \<mapsto> ?tm)) (timeout q) = Some tm \<and>
      cb_socket tm = requester q \<and> cb_request tm = j"
    if "(?P(uuid \<mapsto> ?p)) j = Some q" for j q
  proof (cases "j = uuid")
    case True
    with that show ?thesis by auto
  next
    case False
    with that have pq: "?P j = Some q" by simp
    obtain tm where tm: "?T (timeout q) = Some tm" "cb_socket tm = requester q"
      "cb_request tm = j" using W3[OF pq] by blast
    have "timeout q \<noteq> ?n" using tm nfree by auto
    then show ?thesis using tm by simp
  qed
  have B: "t < Suc ?n \<and>
      (?P(uuid \<mapsto> ?p)) (cb_request tm) = Some \<lparr>timeout = t, requester = cb_socket tm\<rparr>"
    if "(?T(?n \<mapsto> ?tm)) t = Some tm" for t tm
  proof (cases "t = ?n")
    case True
    with that show ?thesis by auto
  next
    case False
    with that have tt: "?T t = Some tm" by simp
    have "cb_request tm \<noteq> uuid" using W4[OF tt] fresh by auto
    then show ?thesis using W4[OF tt] by simp
  qed
  have "coherent (s\<lparr>timers := AList.update ?n ?tm (timers s),
           next_timer := Suc ?n,
           pendingRequests := AList.update uuid ?p (pendingRequests s)\<rparr>)"
    unfolding coherent_iff
    using d A B by (simp add: distinct_update update_conv' del: fun_upd_apply)
  then show ?thesis
    using assms(1) by (simp add: request_host_def coherent_host)
qed

lemma delete_absent: "k \<notin> fst ` set xs \<Longrightarrow> AList.delete k xs = xs"
  by (induction xs) auto

lemma delete_middle:
  "distinct (map fst (pre @ (k, p) # ps)) \<Longrightarrow> AList.delete k (pre @ (k, p) # ps) = pre @ ps"
proof -
  assume d: "distinct (map fst (pre @ (k, p) # ps))"
  then have "k \<notin> fst ` set pre" and "k \<notin> fst ` set ps" by auto
  then have "AList.delete k pre = pre" and "AList.delete k ps = ps"
    by (simp_all add: delete_absent)
  then show ?thesis by (simp add: AList.delete_eq)
qed

lemma map_of_middle:
  "distinct (map fst (pre @ (k, p) # ps)) \<Longrightarrow> map_of (pre @ (k, p) # ps) k = Some p"
  by (simp add: map_add_dom_app_simps dom_map_of_conv_image_fst)

lemma drop_timers_Cons: "drop_timers (t # ts) tms = drop_timers ts (AList.delete t tms)"
  by (auto simp: drop_timers_def AList.delete_eq intro: filter_cong)

lemma drop_timers_Nil: "drop_timers [] tms = tms"
  by (simp add: drop_timers_def)

lemma cancel_loop_eq:
  "pendingRequests s = pre @ ps \<Longrightarrow> distinct (map fst (pre @ ps)) \<Longrightarrow>
   cancel_loop c (map fst ps) s out =
     (s\<lparr>timers := drop_timers (map (timeout \<circ> snd) (requested_by c ps)) (timers s),
        pendingRequests := pre @ not_requested_by c ps\<rparr>,
      out @ (if truthy (hostSocketId s)
             then map (\<lambda>(k, p). IoTo (hostSocketId s) (HostRequestCancelled k))
                    (requested_by c ps)
             else []))"
proof (induction ps arbitrary: pre s out)
  case Nil
  then show ?case
    by (simp add: requested_by_def not_requested_by_def drop_timers_Nil)
next
  case (Cons e ps)
  obtain k p where e: "e = (k, p)" by (cases e)
  have look: "map_of (pendingRequests s) k = Some p"
    using Cons.prems e by (simp only: map_of_middle)
  show ?case
  proof (cases "requester p = c")
    case True
    let ?s = "(clearTimeout (timeout p) s)\<lparr>pendingRequests := AList.delete k (pendingRequests s)\<rparr>"
    have 1: "pendingRequests ?s = pre @ ps"
      using Cons.prems e by (simp add: clearTimeout_def delete_middle)
    have 2: "distinct (map fst (pre @ ps))" using Cons.prems by simp
    show ?thesis
      using Cons.IH[OF 1 2] look True e
      by (simp add: requested_by_def not_requested_by_def drop_timers_Cons clearTimeout_def)
  next
    case False
    have 1: "pendingRequests s = (pre @ [e]) @ ps" using Cons.prems by simp
    have 2: "distinct (map fst ((pre @ [e]) @ ps))" using Cons.prems by simp
    show ?thesis
      using Cons.IH[OF 1 2] look False e
      by (simp add: requested_by_def not_requested_by_def)
  qed
qed

lemma cancel_loop_state: "fst (cancel_loop c ks s out) = disconnect_loop c ks s"
  by (induction ks arbitrary: s out) (auto split: option.splits)

lemma coherent_disconnect_loop: "coherent s \<Longrightarrow> coherent (disconnect_loop c ks s)"
  by (induction ks arbitrary: s) (auto split: option.splits intro: coherent_remove)

lemma js_get_Own: "js_get obj k = Own v \<longleftrightarrow> map_of obj k = Some v"
  by (simp add: js_get_def split: option.splits)

lemma coherent_host_inner:
  "coherent (s\<lparr>hostSocketId := h, pendingRequests := d\<rparr>) = coherent (s\<lparr>pendingRequests := d\<rparr>)"
  by (simp add: coherent_def)

lemma coherent_release_host: "coherent s \<Longrightarrow> coherent (fst (release_host r s))"
  by (auto simp: release_host_def js_get_Own coherent_host coherent_host_inner
      split: property.splits dest: coherent_remove)

lemma coherent_deny_host: "coherent s \<Longrightarrow> coherent (fst (deny_host r s))"
  by (auto simp: deny_host_def js_get_Own split: property.splits dest: coherent_remove)

lemma coherent_cancel: "coherent s \<Longrightarrow> coherent (fst (cancel_host_request c s))"
  by (simp add: cancel_host_request_def cancel_loop_state coherent_disconnect_loop)

lemma coherent_disconnect: "coherent s \<Longrightarrow> coherent (fst (disconnect c s))"
  by (simp add: disconnect_def Let_def coherent_disconnect_loop coherent_host)

lemma coherent_timeout_fires:
  assumes "coherent s"
  shows "coherent (fst (timeout_fires t s))"
proof (cases "map_of (timers s) t")
  case None
  then show ?thesis using assms by (simp add: timeout_fires_def)
next
  case (Some tm)
  let ?p = "\<lparr>timeout = t, requester = cb_socket tm\<rparr>"
  have look: "map_of (pendingRequests s) (cb_request tm) = Some ?p"
    using assms Some unfolding coherent_iff by blast
  have "coherent ((clearTimeout (timeout ?p) s)
           \<lparr>pendingRequests := AList.delete (cb_request tm) (pendingRequests s)\<rparr>)"
    using assms look by (rule coherent_remove)
  then have "coherent ((clearTimeout t s)
           \<lparr>hostSocketId := Sock (cb_socket tm),
            pendingRequests := AList.delete (cb_request tm) (pendingRequests s)\<rparr>)"
    by (simp only: coherent_host_inner pending.simps)
  then show ?thesis
    using assms Some by (simp add: timeout_fires_def clearTimeout_def)
qed

lemma upload_state:
  "fst (upload req uuid s) = s \<or>
   (\<exists>b. fst (upload req uuid s) = s\<lparr>hostUploadBuffers := b\<rparr>)"
  by (auto simp: upload_def Let_def split: option.splits property.splits)

lemma coherent_upload: "coherent s \<Longrightarrow> coherent (fst (upload req uuid s))"
  using upload_state[of req uuid s] by (auto simp: coherent_buffers)

lemma coherent_flush: "coherent s \<Longrightarrow> coherent (fst (product_upload_complete c s))"
  by (auto simp: product_upload_complete_def coherent_buffers split: property.splits option.splits)

lemma coherent_handle:
  "coherent s \<Longrightarrow> fresh_input (From c m) s \<Longrightarrow> coherent (fst (handle c m s))"
  by (cases m)
     (simp_all add: coherent_request_host coherent_release_host coherent_deny_host
        coherent_cancel coherent_disconnect coherent_flush coherent_host
        register_host_def give_up_host_def model_transform_def camera_update_def
        reset_all_def host_pointer_toggle_def host_pointer_update_def browse_selection_def)

lemma coherent_step:
  "coherent s \<Longrightarrow> fresh_input i s \<Longrightarrow> coherent (fst (step i s))"
  by (cases i) (simp_all add: coherent_handle coherent_timeout_fires coherent_upload coherent_now)

lemma fst_run_Cons: "fst (run (i # is) s) = fst (run is (fst (step i s)))"
  by (simp split: prod.splits)

lemma coherent_run:
  "coherent s \<Longrightarrow> fresh_run is s \<Longrightarrow> coherent (fst (run is s))"
proof (induction "is" arbitrary: s)
  case Nil
  then show ?case by simp
next
  case (Cons i "is")
  then show ?case by (simp only: fst_run_Cons fresh_run.simps coherent_step)
qed

text \<open>Every state a fresh run reaches from the initial state satisfies the invariant.\<close>

lemma coherent_reachable:
  "fresh_run is (initial env) \<Longrightarrow> coherent (fst (run is (initial env)))"
  using coherent_initial by (rule coherent_run)

section \<open>A pending request stays armed\<close>

lemma armed_host: "armed uuid t b d (s\<lparr>hostSocketId := h\<rparr>) = armed uuid t b d s"
  by (simp add: armed_def)

lemma armed_host_inner:
  "armed uuid t b d (s\<lparr>hostSocketId := h, pendingRequests := ps\<rparr>)
     = armed uuid t b d (s\<lparr>pendingRequests := ps\<rparr>)"
  by (simp add: armed_def)

lemma armed_buffers: "armed uuid t b d (s\<lparr>hostUploadBuffers := x\<rparr>) = armed uuid t b d s"
  by (simp add: armed_def)

lemma armed_now: "armed uuid t b d (s\<lparr>now := n\<rparr>) = armed uuid t b d s"
  by (simp add: armed_def)

lemma armed_remove:
  assumes "coherent s" and "armed uuid t b d s"
    and "map_of (pendingRequests s) k = Some p" and "k \<noteq> uuid"
  shows "armed uuid t b d ((clearTimeout (timeout p) s)
            \<lparr>pendingRequests := AList.delete k (pendingRequests s)\<rparr>)"
proof -
  obtain tm where tm: "map_of (timers s) (timeout p) = Some tm" "cb_request tm = k"
    using assms(1,3) unfolding coherent_iff by blast
  have "timeout p \<noteq> t"
    using tm assms(2,4) by (auto simp: armed_def)
  then show ?thesis
    using assms(2,4) by (simp add: armed_def clearTimeout_def delete_conv')
qed

lemma armed_disconnect_loop:
  "coherent s \<Longrightarrow> armed uuid t b d s \<Longrightarrow> c \<noteq> b \<Longrightarrow>
   armed uuid t b d (disconnect_loop c ks s)"
proof (induction ks arbitrary: s)
  case Nil
  then show ?case by simp
next
  case (Cons k ks)
  show ?case
  proof (cases "map_of (pendingRequests s) k")
    case None
    then show ?thesis using Cons by simp
  next
    case (Some p)
    show ?thesis
    proof (cases "requester p = c")
      case False
      then show ?thesis using Cons Some by simp
    next
      case True
      have ne: "k \<noteq> uuid"
        using Some True Cons.prems(2,3) by (auto simp: armed_def)
      let ?s = "(clearTimeout (timeout p) s)\<lparr>pendingRequests := AList.delete k (pendingRequests s)\<rparr>"
      have "coherent ?s" using Cons.prems(1) Some by (rule coherent_remove)
      moreover have "armed uuid t b d ?s"
        using Cons.prems(1,2) Some ne by (rule armed_remove)
      ultimately have "armed uuid t b d (disconnect_loop c ks ?s)"
        using Cons.prems(3) by (rule Cons.IH)
      then show ?thesis using Some True by simp
    qed
  qed
qed

lemma armed_request_host:
  assumes "coherent s" and "armed uuid t b d s" and "uuid_ok u s"
  shows "armed uuid t b d (fst (request_host c u s))"
proof -
  have "t < next_timer s"
    using assms(1,2) unfolding coherent_iff armed_def by blast
  moreover have "u \<noteq> uuid"
    using assms(2,3) by (auto simp: armed_def uuid_ok_def dest!: map_of_SomeD intro: rev_image_eqI)
  ultimately show ?thesis
    using assms(2) by (simp add: request_host_def armed_def update_conv')
qed

lemma armed_release_host:
  "coherent s \<Longrightarrow> armed uuid t b d s \<Longrightarrow> r \<noteq> uuid \<Longrightarrow>
   armed uuid t b d (fst (release_host r s))"
  by (auto simp: release_host_def js_get_Own armed_host armed_host_inner
      split: property.splits dest: armed_remove)

lemma armed_deny_host:
  "coherent s \<Longrightarrow> armed uuid t b d s \<Longrightarrow> r \<noteq> uuid \<Longrightarrow>
   armed uuid t b d (fst (deny_host r s))"
  by (auto simp: deny_host_def js_get_Own split: property.splits dest: armed_remove)

lemma armed_timeout_fires:
  assumes "coherent s" and "armed uuid t b d s" and "t' \<noteq> t"
  shows "armed uuid t b d (fst (timeout_fires t' s))"
proof (cases "map_of (timers s) t'")
  case None
  then show ?thesis using assms by (simp add: timeout_fires_def)
next
  case (Some tm)
  let ?p = "\<lparr>timeout = t', requester = cb_socket tm\<rparr>"
  have look: "map_of (pendingRequests s) (cb_request tm) = Some ?p"
    using assms(1) Some unfolding coherent_iff by blast
  have ne: "cb_request tm \<noteq> uuid"
    using look assms(2,3) by (auto simp: armed_def)
  have "armed uuid t b d ((clearTimeout (timeout ?p) s)
           \<lparr>pendingRequests := AList.delete (cb_request tm) (pendingRequests s)\<rparr>)"
    using assms(1,2) look ne by (rule armed_remove)
  then have "armed uuid t b d ((clearTimeout t' s)
           \<lparr>hostSocketId := Sock (cb_socket tm),
            pendingRequests := AList.delete (cb_request tm) (pendingRequests s)\<rparr>)"
    by (simp only: armed_host_inner pending.simps)
  then show ?thesis
    using assms(2) Some by (simp add: timeout_fires_def clearTimeout_def)
qed

lemma armed_upload: "armed uuid t b d s \<Longrightarrow> armed uuid t b d (fst (upload req u s))"
  using upload_state[of req u s] by (auto simp: armed_buffers)

lemma armed_flush:
  "armed uuid t b d s \<Longrightarrow> armed uuid t b d (fst (product_upload_complete c s))"
  by (auto simp: product_upload_complete_def armed_buffers split: property.splits option.splits)

lemma armed_handle:
  "coherent s \<Longrightarrow> fresh_input (From c m) s \<Longrightarrow> armed uuid t b d s \<Longrightarrow>
   \<not> removes b uuid t (From c m) \<Longrightarrow> armed uuid t b d (fst (handle c m s))"
  by (cases m)
     (simp_all add: armed_request_host armed_release_host armed_deny_host armed_flush
        armed_host armed_disconnect_loop cancel_host_request_def cancel_loop_state
        disconnect_def Let_def coherent_host
        register_host_def give_up_host_def model_transform_def camera_update_def
        reset_all_def host_pointer_toggle_def host_pointer_update_def browse_selection_def)

lemma armed_step:
  "coherent s \<Longrightarrow> fresh_input i s \<Longrightarrow> armed uuid t b d s \<Longrightarrow>
   \<not> removes b uuid t i \<Longrightarrow> armed uuid t b d (fst (step i s))"
  by (cases i) (simp_all add: armed_handle armed_timeout_fires armed_upload armed_now)

lemma armed_run:
  "coherent s \<Longrightarrow> fresh_run is s \<Longrightarrow> armed uuid t b d s \<Longrightarrow>
   list_all (\<lambda>i. \<not> removes b uuid t i) is \<Longrightarrow> armed uuid t b d (fst (run is s))"
proof (induction "is" arbitrary: s)
  case Nil
  then show ?case by simp
next
  case (Cons i "is")
  have "coherent (fst (step i s))" using Cons.prems by (simp add: coherent_step)
  moreover have "fresh_run is (fst (step i s))" using Cons.prems by simp
  moreover have "armed uuid t b d (fst (step i s))" using Cons.prems by (simp add: armed_step)
  moreover have "list_all (\<lambda>i. \<not> removes b uuid t i) is" using Cons.prems by simp
  ultimately have "armed uuid t b d (fst (run is (fst (step i s))))" by (rule Cons.IH)
  then show ?case by (simp only: fst_run_Cons)
qed

lemma update_fresh: "k \<notin> fst ` set xs \<Longrightarrow> AList.update k v xs = xs @ [(k, v)]"
  by (induction xs) auto

lemma request_host_contested:
  assumes "hostSocketId s = Sock a" and "a \<noteq> []" and "a \<noteq> b"
  shows "request_host b uuid s =
     (s\<lparr>timers := AList.update (next_timer s)
           \<lparr>due = now s + 30000, cb_socket = b, cb_request = uuid\<rparr> (timers s),
        next_timer := Suc (next_timer s),
        pendingRequests :=
          AList.update uuid \<lparr>timeout = next_timer s, requester = b\<rparr> (pendingRequests s)\<rparr>,
      [IoTo (Sock a) (HostTransferRequest uuid b)])"
  using assms by (simp add: request_host_def)

lemma contested_eq:
  "contested = \<lparr>hostSocketId = Sock ''A'',
      pendingRequests = [(uuid1, \<lparr>timeout = 0, requester = ''B''\<rparr>)],
      hostUploadBuffers = [],
      timers = [(0, \<lparr>due = 30000, cb_socket = ''B'', cb_request = uuid1\<rparr>)],
      next_timer = 1, now = 0, PUBLIC_URL = None\<rparr>"
  by (simp add: contested_def request_host_def hosted_def initial_def)

lemma meanwhile_eq:
  "run meanwhile contested = (contested\<lparr>next_timer := 2, now := 30000\<rparr>,
     [IoTo (Sock ''A'') (HostTransferRequest uuid2 ''C''),
      IoTo (Sock ''C'') (TransferDenied uuid2),
      SocketBroadcast ''A'' (ModelTransform 5)])"
  by (simp add: contested_eq meanwhile_def request_host_def deny_host_def js_get_def
      model_transform_def clearTimeout_def uuid1_def uuid2_def)

section \<open>A cleared timer never fires\<close>

lemma dead_host: "dead t (s\<lparr>hostSocketId := h\<rparr>) = dead t s"
  by (simp add: dead_def)

lemma dead_buffers: "dead t (s\<lparr>hostUploadBuffers := x\<rparr>) = dead t s"
  by (simp add: dead_def)

lemma dead_now: "dead t (s\<lparr>now := n\<rparr>) = dead t s"
  by (simp add: dead_def)

lemma dead_remove:
  "dead t s \<Longrightarrow> dead t ((clearTimeout t' s)\<lparr>pendingRequests := ps\<rparr>)"
  by (simp add: dead_def clearTimeout_def delete_conv')

lemma dead_remove_host:
  "dead t s \<Longrightarrow> dead t ((clearTimeout t' s)\<lparr>hostSocketId := h, pendingRequests := ps\<rparr>)"
  by (simp add: dead_def clearTimeout_def delete_conv')

lemma dead_disconnect_loop: "dead t s \<Longrightarrow> dead t (disconnect_loop c ks s)"
  by (induction ks arbitrary: s) (auto split: option.splits intro: dead_remove)

lemma dead_request_host: "dead t s \<Longrightarrow> dead t (fst (request_host c u s))"
  by (auto simp: request_host_def dead_def update_conv')

lemma dead_release_host: "dead t s \<Longrightarrow> dead t (fst (release_host r s))"
  by (auto simp: release_host_def dead_host dead_remove_host split: property.splits)

lemma dead_deny_host: "dead t s \<Longrightarrow> dead t (fst (deny_host r s))"
  by (auto simp: deny_host_def dead_remove split: property.splits)

lemma dead_timeout_fires: "dead t s \<Longrightarrow> dead t (fst (timeout_fires t' s))"
  by (auto simp: timeout_fires_def dead_def delete_conv' split: option.splits)

lemma dead_upload: "dead t s \<Longrightarrow> dead t (fst (upload req u s))"
  using upload_state[of req u s] by (auto simp: dead_buffers)

lemma dead_flush: "dead t s \<Longrightarrow> dead t (fst (product_upload_complete c s))"
  by (auto simp: product_upload_complete_def dead_buffers split: property.splits option.splits)

lemma dead_handle: "dead t s \<Longrightarrow> dead t (fst (handle c m s))"
  by (cases m)
     (simp_all add: dead_request_host dead_release_host dead_deny_host dead_flush
        dead_host dead_disconnect_loop cancel_host_request_def cancel_loop_state
        disconnect_def Let_def
        register_host_def give_up_host_def model_transform_def camera_update_def
        reset_all_def host_pointer_toggle_def host_pointer_update_def browse_selection_def)

lemma dead_step: "dead t s \<Longrightarrow> dead t (fst (step i s))"
  by (cases i) (simp_all add: dead_handle dead_timeout_fires dead_upload dead_now)

lemma dead_run: "dead t s \<Longrightarrow> dead t (fst (run is s))"
proof (induction "is" arbitrary: s)
  case Nil
  then show ?case by simp
next
  case (Cons i "is")
  then show ?case by (simp only: fst_run_Cons dead_step)
qed

lemma dead_cannot_fire: "dead t s \<Longrightarrow> timeout_fires t s = (s, [])"
  by (simp add: dead_def timeout_fires_def)

section \<open>The two loops, in closed form\<close>

lemma map_of_drop_timers: "t \<in> set ts \<Longrightarrow> map_of (drop_timers ts tms) t = None"
  by (auto simp: drop_timers_def map_of_eq_None_iff)

lemma cancel_host_request_eq:
  assumes "distinct (map fst (pendingRequests s))"
  shows "cancel_host_request c s =
     (s\<lparr>timers := drop_timers (map (timeout \<circ> snd) (requested_by c (pendingRequests s)))
                  (timers s),
        pendingRequests := not_requested_by c (pendingRequests s)\<rparr>,
      if truthy (hostSocketId s)
      then map (\<lambda>(k, p). IoTo (hostSocketId s) (HostRequestCancelled k))
             (requested_by c (pendingRequests s))
      else [])"
  unfolding cancel_host_request_def
  using cancel_loop_eq[of s "[]" "pendingRequests s" c "[]"] assms by simp

lemma disconnect_loop_eq:
  assumes "distinct (map fst (pendingRequests s))"
  shows "disconnect_loop c (map fst (pendingRequests s)) s =
     s\<lparr>timers := drop_timers (map (timeout \<circ> snd) (requested_by c (pendingRequests s)))
                  (timers s),
       pendingRequests := not_requested_by c (pendingRequests s)\<rparr>"
proof -
  have "disconnect_loop c (map fst (pendingRequests s)) s
      = fst (cancel_host_request c s :: state \<times> unit emission list)"
    by (simp add: cancel_host_request_def cancel_loop_state)
  then show ?thesis by (simp add: cancel_host_request_eq[OF assms])
qed

lemma requested_timer_below:
  assumes "coherent s" and "(k, p) \<in> set (requested_by c (pendingRequests s))"
  shows "timeout p < next_timer s"
proof -
  have "(k, p) \<in> set (pendingRequests s)" using assms(2) by (simp add: requested_by_def)
  moreover have "distinct (map fst (pendingRequests s))" using assms(1) by (simp add: coherent_iff)
  ultimately have "map_of (pendingRequests s) k = Some p" by simp
  then obtain tm where "map_of (timers s) (timeout p) = Some tm"
    using assms(1) unfolding coherent_iff by blast
  then show ?thesis using assms(1) unfolding coherent_iff by blast
qed

lemma coherent_contested: "coherent contested"
  by (simp add: contested_eq coherent_def)

section \<open>Every change of the host is announced\<close>

lemma announced_append:
  "announced (xs @ ys) = (case announced ys of Some h \<Rightarrow> Some h | None \<Rightarrow> announced xs)"
  by (induction xs) (auto split: option.splits)

lemma cancel_loop_announces:
  "announced (snd (cancel_loop c ks s out)) = announced out \<and>
   hostSocketId (fst (cancel_loop c ks s out)) = hostSocketId s"
  by (induction ks arbitrary: s out)
     (auto simp: clearTimeout_def announced_append split: option.splits)

lemma disconnect_loop_host: "hostSocketId (disconnect_loop c ks s) = hostSocketId s"
  by (induction ks arbitrary: s) (auto simp: clearTimeout_def split: option.splits)

lemma handle_announces:
  "hostSocketId (fst (handle c m s)) =
     (case announced (snd (handle c m s)) of Some h \<Rightarrow> h | None \<Rightarrow> hostSocketId s)"
proof (cases m)
  case (RequestHost u)
  then show ?thesis by (simp add: request_host_def)
next
  case (ReleaseHost r)
  then show ?thesis
    by (simp add: release_host_def clearTimeout_def split: property.splits)
next
  case (DenyHost r)
  then show ?thesis
    by (simp add: deny_host_def clearTimeout_def split: property.splits)
next
  case CancelHostRequest
  then show ?thesis
    by (simp add: cancel_host_request_def cancel_loop_announces)
next
  case ProductUploadCompleteMsg
  then show ?thesis
    by (simp add: product_upload_complete_def split: property.splits option.splits)
next
  case Disconnect
  then show ?thesis by (simp add: disconnect_def Let_def disconnect_loop_host)
qed (simp_all add: register_host_def give_up_host_def model_transform_def camera_update_def
      reset_all_def host_pointer_toggle_def host_pointer_update_def browse_selection_def)

lemma upload_host: "hostSocketId (fst (upload req u s)) = hostSocketId s"
  using upload_state[of req u s] by auto

lemma step_announces:
  "hostSocketId (fst (step i s)) =
     (case announced (snd (step i s)) of Some h \<Rightarrow> h | None \<Rightarrow> hostSocketId s)"
proof (cases i)
  case (From c m)
  then show ?thesis by (simp add: handle_announces)
next
  case (TimerFires t)
  then show ?thesis by (simp add: timeout_fires_def split: option.splits)
next
  case (Upload req u)
  then show ?thesis by (simp add: upload_host)
next
  case (Advance d)
  then show ?thesis by simp
qed

lemma snd_run_Cons: "snd (run (i # is) s) = snd (step i s) @ snd (run is (fst (step i s)))"
  by (simp split: prod.splits)

lemma run_announces:
  "hostSocketId (fst (run is s)) =
     (case announced (snd (run is s)) of Some h \<Rightarrow> h | None \<Rightarrow> hostSocketId s)"
proof (induction "is" arbitrary: s)
  case Nil
  then show ?case by simp
next
  case (Cons i "is")
  show ?case
    unfolding fst_run_Cons snd_run_Cons announced_append Cons.IH[of "fst (step i s)"]
    by (simp add: step_announces split: option.splits)
qed

lemma initial_host: "hostSocketId (initial env) = Null"
  by (simp add: initial_def)

lemma session_eq:
  "run session (initial None) =
     (\<lparr>hostSocketId = Sock ''C'', pendingRequests = [], hostUploadBuffers = [], timers = [],
       next_timer = 1, now = 0, PUBLIC_URL = None\<rparr>,
      [IoEmit (HostChanged (Sock ''A'')),
       IoTo (Sock ''A'') (HostTransferRequest uuid1 ''B''),
       IoEmit (HostChanged (Sock ''B'')),
       IoEmit (HostChanged (Sock ''C'')) ])"
  by (simp add: session_def initial_def register_host_def request_host_def release_host_def
      js_get_def give_up_host_def clearTimeout_def)

section \<open>Uploads and the flush\<close>

lemma js_get_plain:
  "plain_name c \<Longrightarrow>
   js_get obj c = (case map_of obj c of Some v \<Rightarrow> Own v | None \<Rightarrow> Absent)"
  by (simp add: js_get_def plain_name_def split: option.splits)

lemma upload_host_role:
  assumes "plain_name c" and "host_upload c (req, uuid)"
  shows "upload req uuid s =
     (s\<lparr>hostUploadBuffers :=
          AList.update c (buffer_of s c @ [entry_of s c (req, uuid)]) (hostUploadBuffers s)\<rparr>,
      Json (url (entry_of s c (req, uuid))) (name (entry_of s c (req, uuid))))"
proof -
  obtain nm where nm: "req_file req = Some nm" using assms(2) by (auto simp: host_upload_def)
  have c: "c \<noteq> []" using assms(1) by (simp add: plain_name_def)
  show ?thesis
    using assms(2) nm c
    by (simp add: upload_def host_upload_def entry_of_def buffer_of_def buffered_def
        js_get_plain[OF assms(1)] split: option.splits)
qed

lemma buffer_of_update:
  "buffer_of (s\<lparr>hostUploadBuffers := AList.update c b (hostUploadBuffers s)\<rparr>) c = b"
  by (simp add: buffer_of_def update_conv')

lemma entry_of_buffers:
  "entry_of (s\<lparr>hostUploadBuffers := x\<rparr>) c = entry_of s c"
  by (simp add: entry_of_def buffered_def fileUrl_def fun_eq_iff)

lemma uploads_buffer:
  assumes "plain_name c"
  shows "list_all (host_upload c) ups \<Longrightarrow>
     buffer_of (fst (run (uploads ups :: 'p input list) s)) c
       = buffer_of s c @ map (entry_of s c) ups"
proof (induction ups arbitrary: s)
  case Nil
  then show ?case by (simp add: uploads_def)
next
  case (Cons e ups)
  obtain req uuid where e: "e = (req, uuid)" by (cases e)
  let ?s1 = "s\<lparr>hostUploadBuffers :=
          AList.update c (buffer_of s c @ [entry_of s c (req, uuid)]) (hostUploadBuffers s)\<rparr>"
  have hu: "host_upload c (req, uuid)" and rest: "list_all (host_upload c) ups"
    using Cons.prems e by simp_all
  have st: "fst (step (Upload req uuid) s) = ?s1"
    by (simp add: upload_host_role[OF assms hu])
  have "buffer_of (fst (run (uploads ups :: 'p input list) ?s1)) c
      = buffer_of ?s1 c @ map (entry_of ?s1 c) ups"
    using rest by (rule Cons.IH)
  then have "buffer_of (fst (run (uploads ups :: 'p input list) ?s1)) c
      = (buffer_of s c @ [entry_of s c (req, uuid)]) @ map (entry_of s c) ups"
    by (simp only: buffer_of_update entry_of_buffers)
  then show ?case
    using st e by (simp add: uploads_def split: prod.splits)
qed

lemma uploads_silent: "snd (run (uploads ups :: 'p input list) s) = []"
  by (induction ups arbitrary: s) (auto simp: uploads_def split: prod.splits)

lemma flush_nonempty:
  assumes "buffer_of s c \<noteq> []"
  shows "product_upload_complete c s =
     (s\<lparr>hostUploadBuffers := AList.update c [] (hostUploadBuffers s)\<rparr>,
      [IoEmit (ProductUploadComplete (Parts (buffer_of s c)) c)])"
  using assms
  by (simp add: product_upload_complete_def buffer_of_def js_get_def split: option.splits)

lemma flush_empty:
  assumes "plain_name c" and "buffer_of s c = []"
  shows "product_upload_complete c s = (s, [])"
  using assms(2)
  by (simp add: product_upload_complete_def buffer_of_def js_get_plain[OF assms(1)]
      split: option.splits)

lemma plain_H: "plain_name ''H''"
  by (simp add: plain_name_def object_prototype_def)

lemma plain_B: "plain_name ''B''"
  by (simp add: plain_name_def object_prototype_def)

lemma two_uploads_run:
  "run (uploads (two_uploads ''H'')) (hosted ''H'') =
     ((hosted ''H'')\<lparr>hostUploadBuffers := [(''H'', [chair ''H'', table ''H''])]\<rparr>, [])"
  by (simp add: uploads_def two_uploads_def upload_def chair_request_def table_request_def
      js_get_def object_prototype_def hosted_def initial_def buffered_def fileUrl_def
      chair_def table_def)

lemma two_uploads_flush:
  "product_upload_complete ''H''
     ((hosted ''H'')\<lparr>hostUploadBuffers := [(''H'', [chair ''H'', table ''H''])]\<rparr>) =
     ((hosted ''H'')\<lparr>hostUploadBuffers := [(''H'', [])]\<rparr>,
      [IoEmit (ProductUploadComplete (Parts [chair ''H'', table ''H'']) ''H'')])"
  by (simp add: product_upload_complete_def js_get_def hosted_def initial_def)

lemma flushed_again:
  "product_upload_complete ''H'' ((hosted ''H'')\<lparr>hostUploadBuffers := [(''H'', [])]\<rparr>) =
     ((hosted ''H'')\<lparr>hostUploadBuffers := [(''H'', [])]\<rparr>, [])"
  by (simp add: product_upload_complete_def js_get_def hosted_def initial_def)

lemma cancel_loop_payloads:
  "e \<in> set (snd (cancel_loop c ks s out)) \<Longrightarrow>
   e \<in> set out \<or> (\<exists>k. payload e = HostRequestCancelled k)"
proof (induction ks arbitrary: s out)
  case Nil
  then show ?case by simp
next
  case (Cons k ks)
  show ?case
  proof (cases "map_of (pendingRequests s) k")
    case None
    then show ?thesis using Cons by simp
  next
    case (Some p)
    show ?thesis
    proof (cases "requester p = c")
      case False
      then show ?thesis using Cons Some by simp
    next
      case True
      let ?s = "(clearTimeout (timeout p) s)\<lparr>pendingRequests := AList.delete k (pendingRequests s)\<rparr>"
      let ?out = "if truthy (hostSocketId s)
                  then out @ [IoTo (hostSocketId s) (HostRequestCancelled k)] else out"
      have "e \<in> set (snd (cancel_loop c ks ?s ?out))"
        using Cons.prems Some True by simp
      then have "e \<in> set ?out \<or> (\<exists>k. payload e = HostRequestCancelled k)"
        by (rule Cons.IH)
      then show ?thesis by (auto split: if_splits)
    qed
  qed
qed

lemma handle_product_emissions:
  assumes "e \<in> set (snd (handle c m s))" and "payload e = ProductUploadComplete ps x"
  shows "e = IoEmit (ProductUploadComplete ps x) \<and> x = c"
proof (cases m)
  case (RequestHost u)
  then show ?thesis using assms by (auto simp: request_host_def split: if_splits)
next
  case (ReleaseHost r)
  then show ?thesis using assms by (auto simp: release_host_def split: property.splits)
next
  case (DenyHost r)
  then show ?thesis using assms by (auto simp: deny_host_def split: property.splits)
next
  case CancelHostRequest
  then have "e \<in> set (snd (cancel_loop c (map fst (pendingRequests s)) s []))"
    using assms(1) by (simp add: cancel_host_request_def)
  then have "\<exists>k. payload e = HostRequestCancelled k"
    using cancel_loop_payloads by fastforce
  then show ?thesis using assms(2) by auto
next
  case ProductUploadCompleteMsg
  then show ?thesis
    using assms
    by (auto simp: product_upload_complete_def split: property.splits option.splits if_splits)
next
  case Disconnect
  then show ?thesis using assms by (auto simp: disconnect_def Let_def split: if_splits)
next
  case (BrowseSelection d)
  then show ?thesis using assms by (auto simp: browse_selection_def split: if_splits)
qed (use assms in \<open>auto simp: register_host_def give_up_host_def model_transform_def
      camera_update_def reset_all_def host_pointer_toggle_def host_pointer_update_def
      split: if_splits\<close>)

section \<open>Request ids that are not pending\<close>

lemma stale_reference_absent:
  assumes "js_get (pendingRequests s) r = Absent"
  shows "release_host r s = (s, []) \<and> deny_host r s = (s, [])"
  using assms by (simp add: release_host_def deny_host_def)

lemma deny_host_inherited_name:
  assumes "js_get (pendingRequests s) r = Inherited len"
  shows "deny_host r s = (s, [IoTo Undefined (TransferDenied r)]) \<and>
     recipients conns (IoTo Undefined (TransferDenied r)) = {}"
  using assms by (simp add: deny_host_def)

section \<open>The relay\<close>

text \<open>
  Claim C1. For model-transform, camera-update and reset-all from a socket \<open>c\<close>: when
  \<open>c\<close> is the current host, the handler emits the payload it was given, unchanged, once,
  to every connected socket but \<open>c\<close>, and leaves the state alone; when \<open>c\<close> is not the
  host, the handler emits nothing at all (so nothing goes back to \<open>c\<close> either) and leaves
  the state alone.
\<close>

theorem relay_host_gated:
  "(Sock c = hostSocketId s \<longrightarrow>
      handle c (ModelTransformMsg d) s = (s, [SocketBroadcast c (ModelTransform d)]) \<and>
      handle c (CameraUpdateMsg d) s = (s, [SocketBroadcast c (CameraUpdate d)]) \<and>
      handle c (ResetAllMsg d) s = (s, [SocketBroadcast c (ResetAll d)]) \<and>
      recipients conns (SocketBroadcast c (ModelTransform d)) = conns - {c} \<and>
      recipients conns (SocketBroadcast c (CameraUpdate d)) = conns - {c} \<and>
      recipients conns (SocketBroadcast c (ResetAll d)) = conns - {c})
   \<and> (Sock c \<noteq> hostSocketId s \<longrightarrow>
      handle c (ModelTransformMsg d) s = (s, []) \<and>
      handle c (CameraUpdateMsg d) s = (s, []) \<and>
      handle c (ResetAllMsg d) s = (s, []))"
  by (simp add: model_transform_def camera_update_def reset_all_def)

theorem relay_host_gated_witness:
  "handle ''A'' (ModelTransformMsg (7::nat)) (hosted ''A'')
     = (hosted ''A'', [SocketBroadcast ''A'' (ModelTransform 7)])
   \<and> recipients {''A'', ''B'', ''C''} (SocketBroadcast ''A'' (ModelTransform (7::nat)))
     = {''B'', ''C''}
   \<and> handle ''B'' (CameraUpdateMsg (7::nat)) (hosted ''A'') = (hosted ''A'', [])"
  using relay_host_gated [of "''A''" "hosted ''A''" "7::nat" "{''A'', ''B'', ''C''}"]
        relay_host_gated [of "''B''" "hosted ''A''" "7::nat" "{''A'', ''B'', ''C''}"]
  by (simp add: hosted_def initial_def insert_Diff_if)

text \<open>
  Claim C9. For host-pointer-toggle and host-pointer-update from a socket \<open>c\<close>, in every
  state (whoever the host is, if anyone): the handler emits the payload once to every
  connected socket but \<open>c\<close>, and leaves the state alone.
\<close>

theorem pointer_relay_ungated:
  "handle c (HostPointerToggleMsg d) s = (s, [SocketBroadcast c (HostPointerToggle d)]) \<and>
   handle c (HostPointerUpdateMsg d) s = (s, [SocketBroadcast c (HostPointerUpdate d)]) \<and>
   recipients conns (SocketBroadcast c (HostPointerToggle d)) = conns - {c} \<and>
   recipients conns (SocketBroadcast c (HostPointerUpdate d)) = conns - {c}"
  by (simp add: host_pointer_toggle_def host_pointer_update_def)

section \<open>Host arbitration\<close>

text \<open>
  Claim C2. Let \<open>a\<close> be the host and \<open>b\<close> another socket, and let request-host from \<open>b\<close>
  draw an unused request id. Then the handler adds one pending request under that id, with
  a new timer due 30000 ms later whose callback names \<open>b\<close> and that id; the only message is
  host-transfer-request with that id and \<open>b\<close>, sent to \<open>a\<close>'s room alone; the host is still
  \<open>a\<close>. After any further inputs that contain no release-host or deny-host of that id, no
  cancel-host-request or disconnect of \<open>b\<close> and not the timer itself, the timer is still
  active: before its due time it cannot fire, and once due, firing it sets the host to \<open>b\<close>
  whoever the host was, broadcasts host-changed with \<open>b\<close> to all, and removes the request
  and the timer.
\<close>

theorem auto_grant_on_timeout:
  fixes "is" :: "'p input list" and out1 :: "'p emission list"
  assumes "coherent s" and "hostSocketId s = Sock a" and "a \<noteq> []" and "a \<noteq> b"
    and "uuid_ok uuid s"
    and "request_host b uuid s = (s1, out1)"
    and "fresh_run is s1"
    and "list_all (\<lambda>i. \<not> removes b uuid (next_timer s) i) is"
    and "run is s1 = (s2, out2)"
  shows "out1 = [IoTo (Sock a) (HostTransferRequest uuid b)] \<and>
     recipients conns (IoTo (Sock a) (HostTransferRequest uuid b) :: 'p emission) = conns \<inter> {a} \<and>
     pendingRequests s1
       = pendingRequests s @ [(uuid, \<lparr>timeout = next_timer s, requester = b\<rparr>)] \<and>
     map_of (timers s1) (next_timer s)
       = Some \<lparr>due = now s + 30000, cb_socket = b, cb_request = uuid\<rparr> \<and>
     hostSocketId s1 = Sock a \<and>
     (now s2 < now s + 30000 \<longrightarrow>
        (timeout_fires (next_timer s) s2 :: state \<times> 'p emission list) = (s2, [])) \<and>
     (now s + 30000 \<le> now s2 \<longrightarrow>
        (timeout_fires (next_timer s) s2 :: state \<times> 'p emission list) =
          (s2\<lparr>timers := AList.delete (next_timer s) (timers s2),
              hostSocketId := Sock b,
              pendingRequests := AList.delete uuid (pendingRequests s2)\<rparr>,
           [IoEmit (HostChanged (Sock b))]) \<and>
        map_of (AList.delete uuid (pendingRequests s2)) uuid = None \<and>
        map_of (AList.delete (next_timer s) (timers s2)) (next_timer s) = None \<and>
        recipients conns (IoEmit (HostChanged (Sock b)) :: 'p emission) = conns)"
proof -
  let ?t = "next_timer s"
  let ?d = "now s + 30000"
  have rh: "request_host b uuid s =
     (s\<lparr>timers := AList.update ?t \<lparr>due = ?d, cb_socket = b, cb_request = uuid\<rparr> (timers s),
        next_timer := Suc ?t,
        pendingRequests :=
          AList.update uuid \<lparr>timeout = ?t, requester = b\<rparr> (pendingRequests s)\<rparr>,
      [IoTo (Sock a) (HostTransferRequest uuid b) :: 'p emission])"
    using assms(2,3,4) by (rule request_host_contested)
  have s1: "s1 = fst (request_host b uuid s :: state \<times> 'p emission list)"
    and out1: "out1 = [IoTo (Sock a) (HostTransferRequest uuid b)]"
    using assms(6) rh by simp_all
  have fresh: "uuid \<notin> fst ` set (pendingRequests s)"
    using assms(5) by (simp add: uuid_ok_def)
  have p1: "pendingRequests s1 = pendingRequests s @ [(uuid, \<lparr>timeout = ?t, requester = b\<rparr>)]"
    using rh s1 fresh by (simp add: update_fresh)
  have t1: "map_of (timers s1) ?t = Some \<lparr>due = ?d, cb_socket = b, cb_request = uuid\<rparr>"
    using rh s1 by (simp add: update_conv')
  have h1: "hostSocketId s1 = Sock a"
    using rh s1 assms(2) by simp
  have c1: "coherent s1"
    unfolding s1 using assms(1,5) by (rule coherent_request_host)
  have a1: "armed uuid ?t b ?d s1"
    unfolding armed_def using rh s1 by (simp add: update_conv')
  have s2: "s2 = fst (run is s1)" using assms(9) by simp
  have a2: "armed uuid ?t b ?d s2"
    unfolding s2 using c1 assms(7) a1 assms(8) by (rule armed_run)
  then have t2: "map_of (timers s2) ?t = Some \<lparr>due = ?d, cb_socket = b, cb_request = uuid\<rparr>"
    by (simp add: armed_def)
  have early: "(timeout_fires ?t s2 :: state \<times> 'p emission list) = (s2, [])"
    if "now s2 < ?d"
    using that t2 by (simp add: timeout_fires_def)
  have fires: "(timeout_fires ?t s2 :: state \<times> 'p emission list) =
      (s2\<lparr>timers := AList.delete ?t (timers s2), hostSocketId := Sock b,
          pendingRequests := AList.delete uuid (pendingRequests s2)\<rparr>,
       [IoEmit (HostChanged (Sock b))])"
    if "?d \<le> now s2"
    using that t2 by (simp add: timeout_fires_def)
  have gone: "map_of (AList.delete uuid (pendingRequests s2)) uuid = None"
    "map_of (AList.delete ?t (timers s2)) ?t = None"
    by (simp_all add: delete_conv')
  have to_host: "recipients conns (IoTo (Sock a) (HostTransferRequest uuid b) :: 'p emission)
      = conns \<inter> {a}"
    by auto
  show ?thesis
    using out1 to_host p1 t1 h1 early fires gone by simp
qed

theorem auto_grant_on_timeout_witness:
  "coherent (hosted ''A'') \<and> uuid_ok uuid1 (hosted ''A'') \<and>
   fresh_run meanwhile contested \<and>
   list_all (\<lambda>i. \<not> removes ''B'' uuid1 0 i) meanwhile \<and>
   (timeout_fires 0 (fst (run meanwhile contested)) :: state \<times> nat emission list) =
     ((hosted ''A'')\<lparr>hostSocketId := Sock ''B'', next_timer := 2, now := 30000\<rparr>,
      [IoEmit (HostChanged (Sock ''B''))])"
proof -
  have 1: "coherent (hosted ''A'')"
    by (simp add: hosted_def coherent_initial coherent_host)
  have 2: "hostSocketId (hosted ''A'') = Sock ''A''" by (simp add: hosted_def)
  have 3: "''A'' \<noteq> []" "''A'' \<noteq> ''B''" by simp_all
  have 4: "uuid_ok uuid1 (hosted ''A'')"
    by (simp add: uuid_ok_def uuid1_def hosted_def initial_def)
  have 5: "request_host ''B'' uuid1 (hosted ''A'')
      = (contested, [IoTo (Sock ''A'') (HostTransferRequest uuid1 ''B'') :: nat emission])"
    by (simp add: contested_def request_host_def hosted_def initial_def)
  have 6: "fresh_run meanwhile contested"
    by (simp add: contested_eq meanwhile_def request_host_def deny_host_def js_get_def
      model_transform_def clearTimeout_def uuid_ok_def uuid1_def uuid2_def)
  have 7: "list_all (\<lambda>i. \<not> removes ''B'' uuid1 (next_timer (hosted ''A'')) i) meanwhile"
    by (simp add: meanwhile_def uuid1_def uuid2_def)
  have n: "next_timer (hosted ''A'') = 0" by (simp add: hosted_def initial_def)
  have "(timeout_fires 0 (fst (run meanwhile contested)) :: state \<times> nat emission list) =
     (contested\<lparr>next_timer := 2, now := 30000, timers := [], hostSocketId := Sock ''B'',
        pendingRequests := []\<rparr>,
      [IoEmit (HostChanged (Sock ''B''))])"
    using auto_grant_on_timeout [OF 1 2 3 4 5 6 7 meanwhile_eq, of "{}"]
    by (simp add: n meanwhile_eq) (simp add: contested_eq)
  then show ?thesis
    using 1 4 6 7 by (simp add: contested_eq hosted_def initial_def)
qed

text \<open>
  Claim C8. Let \<open>a\<close> be the host, in a state that satisfies the invariant, and let socket
  \<open>b\<close> send cancel-host-request. Then exactly the pending requests of \<open>b\<close> are removed
  and the others stay, in order; the host is still \<open>a\<close>; the messages are one
  host-request-cancelled per removed request, carrying its id, in order, each to \<open>a\<close>'s
  room alone; and the timer of every removed request is no longer active, stays inactive
  after any further inputs, and firing its handle then does nothing.
\<close>

theorem cancel_before_timeout:
  fixes out :: "'p emission list" and "is" :: "'p input list"
  assumes "coherent s" and "hostSocketId s = Sock a" and "a \<noteq> []"
    and "cancel_host_request b s = (s', out)"
  shows "pendingRequests s' = not_requested_by b (pendingRequests s) \<and>
     hostSocketId s' = Sock a \<and>
     out = map (\<lambda>(k, p). IoTo (Sock a) (HostRequestCancelled k))
             (requested_by b (pendingRequests s)) \<and>
     (\<forall>(k, p) \<in> set (requested_by b (pendingRequests s)).
        recipients conns (IoTo (Sock a) (HostRequestCancelled k) :: 'p emission) = conns \<inter> {a} \<and>
        map_of (timers s') (timeout p) = None \<and>
        map_of (timers (fst (run is s'))) (timeout p) = None \<and>
        (timeout_fires (timeout p) (fst (run is s')) :: state \<times> 'p emission list)
          = (fst (run is s'), []))"
proof -
  let ?mine = "requested_by b (pendingRequests s)"
  have d: "distinct (map fst (pendingRequests s))" using assms(1) by (simp add: coherent_iff)
  have eq: "(s', out) =
     (s\<lparr>timers := drop_timers (map (timeout \<circ> snd) ?mine) (timers s),
        pendingRequests := not_requested_by b (pendingRequests s)\<rparr>,
      map (\<lambda>(k, p). IoTo (Sock a) (HostRequestCancelled k)) ?mine)"
    unfolding assms(4)[symmetric]
    using cancel_host_request_eq[OF d, of b] assms(2,3) by simp
  have s': "s' = s\<lparr>timers := drop_timers (map (timeout \<circ> snd) ?mine) (timers s),
        pendingRequests := not_requested_by b (pendingRequests s)\<rparr>"
    and out: "out = map (\<lambda>(k, p). IoTo (Sock a) (HostRequestCancelled k)) ?mine"
    using eq by simp_all
  have each: "recipients conns (IoTo (Sock a) (HostRequestCancelled k) :: 'p emission) = conns \<inter> {a} \<and>
        map_of (timers s') (timeout p) = None \<and>
        map_of (timers (fst (run is s'))) (timeout p) = None \<and>
        (timeout_fires (timeout p) (fst (run is s')) :: state \<times> 'p emission list)
          = (fst (run is s'), [])"
    if m: "(k, p) \<in> set ?mine" for k p
  proof -
    have "timeout p \<in> set (map (timeout \<circ> snd) ?mine)" using m by force
    then have gone: "map_of (timers s') (timeout p) = None"
      unfolding s' by (simp add: map_of_drop_timers)
    have "timeout p < next_timer s" using assms(1) m by (rule requested_timer_below)
    then have "dead (timeout p) s'" using gone by (simp add: dead_def s')
    then have later: "dead (timeout p) (fst (run is s'))" by (rule dead_run)
    have "recipients conns (IoTo (Sock a) (HostRequestCancelled k) :: 'p emission) = conns \<inter> {a}"
      by auto
    then show ?thesis
      using gone later dead_cannot_fire[OF later] by (simp add: dead_def)
  qed
  show ?thesis
    using s' out assms(2) each by auto
qed


theorem cancel_before_timeout_witness:
  "coherent contested \<and>
   requested_by ''B'' (pendingRequests contested) = [(uuid1, \<lparr>timeout = 0, requester = ''B''\<rparr>)] \<and>
   (cancel_host_request ''B'' contested :: state \<times> nat emission list) =
     ((hosted ''A'')\<lparr>next_timer := 1\<rparr>, [IoTo (Sock ''A'') (HostRequestCancelled uuid1)]) \<and>
   recipients {''A'', ''B'', ''C''} (IoTo (Sock ''A'') (HostRequestCancelled uuid1) :: nat emission)
     = {''A''} \<and>
   (timeout_fires 0 (fst (run later ((hosted ''A'')\<lparr>next_timer := 1\<rparr>)))
      :: state \<times> nat emission list)
     = (fst (run later ((hosted ''A'')\<lparr>next_timer := 1\<rparr>)), [])"
proof -
  have h: "hostSocketId contested = Sock ''A''" by (simp add: contested_eq)
  have ne: "''A'' \<noteq> []" by simp
  have mine: "requested_by ''B'' (pendingRequests contested)
      = [(uuid1, \<lparr>timeout = 0, requester = ''B''\<rparr>)]"
    by (simp add: contested_eq requested_by_def)
  have c: "(cancel_host_request ''B'' contested :: state \<times> nat emission list) =
     ((hosted ''A'')\<lparr>next_timer := 1\<rparr>, [IoTo (Sock ''A'') (HostRequestCancelled uuid1)])"
    by (simp add: contested_eq cancel_host_request_def clearTimeout_def hosted_def initial_def)
  show ?thesis
    using cancel_before_timeout [OF coherent_contested h ne c, of "{''A'', ''B'', ''C''}" later]
      coherent_contested c
    by (simp add: mine)
qed

section \<open>Disconnect\<close>

text \<open>
  Claim C4. Let socket \<open>h\<close> disconnect, in a state that satisfies the invariant. If \<open>h\<close>
  is the host, the host becomes \<^verbatim>\<open>null\<close> and the only message is one host-changed with
  \<^verbatim>\<open>null\<close>, sent to all; if not, the host is unchanged and there is no message. Either
  way exactly the pending requests of \<open>h\<close> are removed, each with its timer cleared, and
  nothing is sent for them. If \<open>h\<close> is neither the host nor a requester, the state is
  unchanged.
\<close>

theorem disconnect_effects:
  fixes out :: "'p emission list"
  assumes "coherent s" and "disconnect h s = (s', out)"
  shows "(Sock h = hostSocketId s \<longrightarrow>
        hostSocketId s' = Null \<and> out = [IoEmit (HostChanged Null)] \<and>
        recipients conns (IoEmit (HostChanged Null) :: 'p emission) = conns) \<and>
     (Sock h \<noteq> hostSocketId s \<longrightarrow> hostSocketId s' = hostSocketId s \<and> out = []) \<and>
     pendingRequests s' = not_requested_by h (pendingRequests s) \<and>
     (\<forall>(k, p) \<in> set (requested_by h (pendingRequests s)).
        map_of (pendingRequests s') k = None \<and> map_of (timers s') (timeout p) = None) \<and>
     (Sock h \<noteq> hostSocketId s \<and> requested_by h (pendingRequests s) = [] \<longrightarrow> s' = s)"
proof -
  let ?mine = "requested_by h (pendingRequests s)"
  let ?s1 = "if Sock h = hostSocketId s then s\<lparr>hostSocketId := Null\<rparr> else s"
  have d: "distinct (map fst (pendingRequests ?s1))" using assms(1) by (simp add: coherent_iff)
  have d0: "distinct (map fst (pendingRequests s))" using assms(1) by (simp add: coherent_iff)
  have p1: "pendingRequests ?s1 = pendingRequests s" and t1: "timers ?s1 = timers s" by simp_all
  have "(s', out) = (disconnect_loop h (map fst (pendingRequests ?s1)) ?s1,
      if Sock h = hostSocketId s then [IoEmit (HostChanged Null)] else [])"
    unfolding assms(2)[symmetric] by (simp add: disconnect_def Let_def)
  then have s': "s' = ?s1\<lparr>timers := drop_timers (map (timeout \<circ> snd) ?mine) (timers s),
        pendingRequests := not_requested_by h (pendingRequests s)\<rparr>"
    and out: "out = (if Sock h = hostSocketId s then [IoEmit (HostChanged Null)] else [])"
    unfolding disconnect_loop_eq[OF d] by (simp_all only: prod.inject p1 t1)
  have each: "map_of (pendingRequests s') k = None \<and> map_of (timers s') (timeout p) = None"
    if m: "(k, p) \<in> set ?mine" for k p
  proof -
    have "timeout p \<in> set (map (timeout \<circ> snd) ?mine)" using m by force
    then have "map_of (timers s') (timeout p) = None"
      unfolding s' by (simp add: map_of_drop_timers)
    moreover have r: "requester p = h" using m by (simp add: requested_by_def)
    have mp: "map_of (pendingRequests s) k = Some p"
      using m d0 by (simp add: requested_by_def)
    have "q = p" if "(k, q) \<in> set (pendingRequests s)" for q
    proof -
      have "map_of (pendingRequests s) k = Some q" using that d0 by simp
      then show ?thesis using mp by simp
    qed
    then have "map_of (pendingRequests s') k = None"
      unfolding s' using r by (auto simp: not_requested_by_def map_of_eq_None_iff)
    ultimately show ?thesis by simp
  qed
  have same: "s' = s" if "Sock h \<noteq> hostSocketId s" and "?mine = []"
  proof -
    have "not_requested_by h (pendingRequests s) = pendingRequests s"
      using that(2) by (auto simp: requested_by_def not_requested_by_def filter_empty_conv
          filter_id_conv)
    then show ?thesis using that by (simp add: s' drop_timers_Nil)
  qed
  show ?thesis
    using s' out each same by auto
qed

theorem disconnect_effects_witness:
  "coherent contested \<and>
   (disconnect ''A'' contested :: state \<times> nat emission list)
     = (contested\<lparr>hostSocketId := Null\<rparr>, [IoEmit (HostChanged Null)]) \<and>
   (disconnect ''B'' contested :: state \<times> nat emission list)
     = ((hosted ''A'')\<lparr>next_timer := 1\<rparr>, []) \<and>
   (disconnect ''C'' contested :: state \<times> nat emission list) = (contested, [])"
proof -
  have a: "(disconnect ''A'' contested :: state \<times> nat emission list)
     = (contested\<lparr>hostSocketId := Null\<rparr>, [IoEmit (HostChanged Null)])"
    by (simp add: contested_eq disconnect_def)
  have b: "(disconnect ''B'' contested :: state \<times> nat emission list)
     = ((hosted ''A'')\<lparr>next_timer := 1\<rparr>, [])"
    by (simp add: contested_eq disconnect_def clearTimeout_def hosted_def initial_def)
  have c: "(disconnect ''C'' contested :: state \<times> nat emission list) = (contested, [])"
    by (simp add: contested_eq disconnect_def)
  show ?thesis
    using disconnect_effects [OF coherent_contested a, of "{''A'', ''B''}"]
      disconnect_effects [OF coherent_contested b, of "{''A'', ''B''}"]
      disconnect_effects [OF coherent_contested c, of "{''A'', ''B''}"]
      coherent_contested a b c
    by simp
qed

section \<open>One host\<close>

text \<open>
  Claim C5. After any finite sequence of inputs from the initial state, at most one socket
  passes the server's test \<^verbatim>\<open>socket.id === hostSocketId\<close>: the variable holds one value,
  which is \<^verbatim>\<open>null\<close>, \<^verbatim>\<open>undefined\<close> or one socket id. Moreover that value is the one
  named by the last host-changed the server has sent (\<^verbatim>\<open>null\<close> if it has sent none), so
  the clients are told of every change.
\<close>

theorem single_host:
  assumes "run is (initial env) = (s, out)"
  shows "(Sock c1 = hostSocketId s \<and> Sock c2 = hostSocketId s \<longrightarrow> c1 = c2) \<and>
     hostSocketId s = (case announced out of Some h \<Rightarrow> h | None \<Rightarrow> Null)"
proof -
  have "hostSocketId s = (case announced out of Some h \<Rightarrow> h | None \<Rightarrow> Null)"
    using run_announces[of "is" "initial env"] assms initial_host
    by (simp split: option.splits)
  moreover have "c1 = c2" if "Sock c1 = hostSocketId s" and "Sock c2 = hostSocketId s"
    using that by (cases "hostSocketId s") simp_all
  ultimately show ?thesis by blast
qed

theorem single_host_witness:
  "hostSocketId (fst (run session (initial None))) = Sock ''C'' \<and>
   announced (snd (run session (initial None))) = Some (Sock ''C'')"
  using single_host [OF session_eq, of "''C''" "''C''"]
  by (simp add: session_eq)

section \<open>The upload buffer\<close>

text \<open>
  Claim C3. Let \<open>h\<close> be a socket id that is a plain name, with nothing buffered. After
  \<open>k \<ge> 1\<close> uploads that carry a file, the role \<^verbatim>\<open>host\<close> and the id \<open>h\<close> (none of which
  emits anything), product-upload-complete from \<open>h\<close> emits exactly one message, to all,
  whose parts are the \<open>k\<close> entries of these uploads in the order of the uploads, and leaves
  the buffer of \<open>h\<close> empty; a second product-upload-complete from \<open>h\<close> emits nothing and
  changes nothing.
\<close>

theorem buffer_flush_once:
  fixes out1 out2 out3 :: "'p emission list"
  assumes "plain_name h" and "buffer_of s h = []"
    and "ups \<noteq> []" and "list_all (host_upload h) ups"
    and "run (uploads ups) s = (s1, out1)"
    and "product_upload_complete h s1 = (s2, out2)"
    and "product_upload_complete h s2 = (s3, out3)"
  shows "out1 = [] \<and>
     out2 = [IoEmit (ProductUploadComplete (Parts (map (entry_of s h) ups)) h)] \<and>
     length (map (entry_of s h) ups) = length ups \<and>
     recipients conns (IoEmit (ProductUploadComplete (Parts (map (entry_of s h) ups)) h)
        :: 'p emission) = conns \<and>
     map_of (hostUploadBuffers s2) h = Some [] \<and>
     out3 = [] \<and> s3 = s2"
proof -
  have s1: "s1 = fst (run (uploads ups :: 'p input list) s)" and o1: "out1 = []"
    using assms(5) uploads_silent[of ups s, where ?'p = 'p] by simp_all
  have b1: "buffer_of s1 h = map (entry_of s h) ups"
    unfolding s1 using uploads_buffer[OF assms(1,4), of s, where ?'p = 'p] assms(2) by simp
  then have ne: "buffer_of s1 h \<noteq> []" using assms(3) by simp
  have "(s2, out2) =
     (s1\<lparr>hostUploadBuffers := AList.update h [] (hostUploadBuffers s1)\<rparr>,
      [IoEmit (ProductUploadComplete (Parts (buffer_of s1 h)) h)])"
    unfolding assms(6)[symmetric] using ne by (rule flush_nonempty)
  then have s2: "s2 = s1\<lparr>hostUploadBuffers := AList.update h [] (hostUploadBuffers s1)\<rparr>"
    and o2: "out2 = [IoEmit (ProductUploadComplete (Parts (map (entry_of s h) ups)) h)]"
    by (simp_all add: b1)
  have m2: "map_of (hostUploadBuffers s2) h = Some []"
    by (simp add: s2 update_conv')
  then have "buffer_of s2 h = []" by (simp add: buffer_of_def)
  then have "(s3, out3) = (s2, [])"
    unfolding assms(7)[symmetric] using assms(1) by (simp add: flush_empty)
  then show ?thesis
    using o1 o2 m2 by simp
qed


theorem buffer_flush_once_witness:
  "plain_name ''H'' \<and> buffer_of (hosted ''H'') ''H'' = [] \<and>
   list_all (host_upload ''H'') (two_uploads ''H'') \<and>
   map (entry_of (hosted ''H'') ''H'') (two_uploads ''H'') = [chair ''H'', table ''H''] \<and>
   (product_upload_complete ''H'' (fst (run (uploads (two_uploads ''H'') :: nat input list)
       (hosted ''H''))) :: state \<times> nat emission list) =
     ((hosted ''H'')\<lparr>hostUploadBuffers := [(''H'', [])]\<rparr>,
      [IoEmit (ProductUploadComplete (Parts [chair ''H'', table ''H'']) ''H'')])"
proof -
  have 2: "buffer_of (hosted ''H'') ''H'' = []"
    by (simp add: buffer_of_def hosted_def initial_def)
  have 3: "two_uploads ''H'' \<noteq> []" by (simp add: two_uploads_def)
  have 4: "list_all (host_upload ''H'') (two_uploads ''H'')"
    by (simp add: two_uploads_def host_upload_def chair_request_def table_request_def)
  have 5: "map (entry_of (hosted ''H'') ''H'') (two_uploads ''H'') = [chair ''H'', table ''H'']"
    by (simp add: two_uploads_def entry_of_def chair_request_def table_request_def
        buffered_def fileUrl_def hosted_def initial_def chair_def table_def)
  show ?thesis
    using buffer_flush_once [OF plain_H 2 3 4 two_uploads_run two_uploads_flush flushed_again,
        of "{''H'', ''V''}"]
      plain_H 2 4 5
    by (simp add: two_uploads_run two_uploads_flush)
qed

text \<open>
  Claim C10. Neither the upload route nor the flush looks at the host: each gives the same
  result whatever \<^verbatim>\<open>hostSocketId\<close> holds. An upload with a file, the role header
  \<^verbatim>\<open>host\<close> and the id of a socket \<open>c\<close> is appended to the buffer of \<open>c\<close>; an upload
  whose role header is not \<^verbatim>\<open>host\<close> changes nothing; and product-upload-complete from
  \<open>c\<close> with a non-empty buffer sends that buffer to all and empties it.
\<close>

theorem role_header_decides:
  "(plain_name c \<and> host_upload c (req, uuid) \<longrightarrow>
      buffer_of (fst (upload req uuid s)) c = buffer_of s c @ [entry_of s c (req, uuid)]) \<and>
   (or_else (x_uploader_role req) ''viewer'' \<noteq> ''host'' \<longrightarrow> fst (upload req uuid s) = s) \<and>
   upload req uuid (s\<lparr>hostSocketId := h\<rparr>)
     = (case upload req uuid s of (s', r) \<Rightarrow> (s'\<lparr>hostSocketId := h\<rparr>, r)) \<and>
   (buffer_of s c \<noteq> [] \<longrightarrow>
      (product_upload_complete c s :: state \<times> 'p emission list) =
        (s\<lparr>hostUploadBuffers := AList.update c [] (hostUploadBuffers s)\<rparr>,
         [IoEmit (ProductUploadComplete (Parts (buffer_of s c)) c)]) \<and>
      recipients conns (IoEmit (ProductUploadComplete (Parts (buffer_of s c)) c) :: 'p emission)
        = conns) \<and>
   (product_upload_complete c (s\<lparr>hostSocketId := h\<rparr>) :: state \<times> 'p emission list)
     = (case product_upload_complete c s of (s', out) \<Rightarrow> (s'\<lparr>hostSocketId := h\<rparr>, out))"
proof -
  have a: "buffer_of (fst (upload req uuid s)) c = buffer_of s c @ [entry_of s c (req, uuid)]"
    if "plain_name c" and "host_upload c (req, uuid)"
    using that by (simp add: upload_host_role buffer_of_update)
  have b: "fst (upload req uuid s) = s"
    if "or_else (x_uploader_role req) ''viewer'' \<noteq> ''host''"
    using that by (simp add: upload_def Let_def split: option.splits)
  have c: "upload req uuid (s\<lparr>hostSocketId := h\<rparr>)
     = (case upload req uuid s of (s', r) \<Rightarrow> (s'\<lparr>hostSocketId := h\<rparr>, r))"
    by (simp add: upload_def Let_def buffered_def fileUrl_def
        split: option.splits property.splits)
  have d: "(product_upload_complete c (s\<lparr>hostSocketId := h\<rparr>) :: state \<times> 'p emission list)
     = (case product_upload_complete c s of (s', out) \<Rightarrow> (s'\<lparr>hostSocketId := h\<rparr>, out))"
    by (simp add: product_upload_complete_def split: option.splits property.splits)
  show ?thesis
    using a b c d by (simp add: flush_nonempty)
qed

theorem role_header_decides_witness:
  "Sock ''B'' \<noteq> hostSocketId (hosted ''A'') \<and>
   plain_name ''B'' \<and> host_upload ''B'' (chair_request ''B'', uuid1) \<and>
   buffer_of (fst (upload (chair_request ''B'') uuid1 (hosted ''A''))) ''B'' = [chair ''B''] \<and>
   (product_upload_complete ''B'' (fst (upload (chair_request ''B'') uuid1 (hosted ''A'')))
      :: state \<times> nat emission list) =
     ((hosted ''A'')\<lparr>hostUploadBuffers := [(''B'', [])]\<rparr>,
      [IoEmit (ProductUploadComplete (Parts [chair ''B'']) ''B'')]) \<and>
   recipients {''A'', ''B''} (IoEmit (ProductUploadComplete (Parts [chair ''B'']) ''B'')
      :: nat emission) = {''A'', ''B''}"
proof -
  have 1: "host_upload ''B'' (chair_request ''B'', uuid1)"
    by (simp add: host_upload_def chair_request_def)
  have 2: "buffer_of (hosted ''A'') ''B'' = []"
    by (simp add: buffer_of_def hosted_def initial_def)
  have 3: "entry_of (hosted ''A'') ''B'' (chair_request ''B'', uuid1) = chair ''B''"
    by (simp add: entry_of_def chair_request_def buffered_def fileUrl_def hosted_def
        initial_def chair_def)
  have 4: "fst (upload (chair_request ''B'') uuid1 (hosted ''A''))
      = (hosted ''A'')\<lparr>hostUploadBuffers := [(''B'', [chair ''B''])]\<rparr>"
    by (simp add: upload_host_role[OF plain_B 1] 2 3) (simp add: hosted_def initial_def)
  have 5: "buffer_of ((hosted ''A'')\<lparr>hostUploadBuffers := [(''B'', [chair ''B''])]\<rparr>) ''B''
      = [chair ''B'']"
    by (simp add: buffer_of_def)
  show ?thesis
    using role_header_decides [of "''B''" "chair_request ''B''" uuid1 "hosted ''A''" Null
        "{''A'', ''B''}", where ?'p = nat]
      role_header_decides [of "''B''" "chair_request ''B''" uuid1
        "(hosted ''A'')\<lparr>hostUploadBuffers := [(''B'', [chair ''B''])]\<rparr>" Null
        "{''A'', ''B''}", where ?'p = nat]
      plain_B 1
    by (simp add: 2 3 4 5) (simp add: hosted_def initial_def)
qed


text \<open>
  Claim C6, as amended. Every product-upload-complete the server emits, from a flush or
  from a browse-selection, is emitted with \<^verbatim>\<open>io.emit\<close>: every connected socket receives
  it, the sender named in it included, and that sender is the socket whose message caused
  it. The counterexample shows the sender among the recipients, for a flush and for a
  browse-selection.
\<close>

theorem product_upload_complete_to_all:
  assumes "e \<in> set (snd (step i s))" and "payload e = ProductUploadComplete ps c"
  shows "e = IoEmit (ProductUploadComplete ps c) \<and> recipients conns e = conns \<and>
     (\<exists>m. i = From c m)"
proof (cases i)
  case (From x m)
  then have "e = IoEmit (ProductUploadComplete ps c) \<and> c = x"
    using assms handle_product_emissions[of e x m s ps c] by simp
  then show ?thesis using From by auto
next
  case (TimerFires t)
  then show ?thesis
    using assms by (auto simp: timeout_fires_def split: option.splits if_splits)
next
  case (Upload req u)
  then show ?thesis using assms by simp
next
  case (Advance d)
  then show ?thesis using assms by simp
qed

theorem product_upload_complete_to_all_witness:
  "IoEmit (ProductUploadComplete (Parts [chair ''H'', table ''H'']) ''H'')
     \<in> set (snd (step (From ''H'' ProductUploadCompleteMsg)
         ((hosted ''H'')\<lparr>hostUploadBuffers := [(''H'', [chair ''H'', table ''H''])]\<rparr>))
          :: nat emission list) \<and>
   recipients {''H'', ''V''}
     (IoEmit (ProductUploadComplete (Parts [chair ''H'', table ''H'']) ''H'') :: nat emission)
     = {''H'', ''V''}"
proof -
  have 1: "IoEmit (ProductUploadComplete (Parts [chair ''H'', table ''H'']) ''H'')
     \<in> set (snd (step (From ''H'' ProductUploadCompleteMsg)
         ((hosted ''H'')\<lparr>hostUploadBuffers := [(''H'', [chair ''H'', table ''H''])]\<rparr>))
          :: nat emission list)"
    by (simp add: two_uploads_flush)
  have 2: "payload (IoEmit (ProductUploadComplete (Parts [chair ''H'', table ''H'']) ''H'')
      :: nat emission) = ProductUploadComplete (Parts [chair ''H'', table ''H'']) ''H''"
    by simp
  show ?thesis
    using product_upload_complete_to_all [OF 1 2, of "{''H'', ''V''}"] 1 by simp
qed

theorem product_upload_complete_reaches_sender:
  "(product_upload_complete ''H''
      ((hosted ''H'')\<lparr>hostUploadBuffers := [(''H'', [chair ''H'', table ''H''])]\<rparr>)
        :: state \<times> nat emission list) =
     ((hosted ''H'')\<lparr>hostUploadBuffers := [(''H'', [])]\<rparr>,
      [IoEmit (ProductUploadComplete (Parts [chair ''H'', table ''H'']) ''H'')]) \<and>
   ''H'' \<in> recipients {''H'', ''V''}
      (IoEmit (ProductUploadComplete (Parts [chair ''H'', table ''H'']) ''H'') :: nat emission) \<and>
   browse_selection ''H'' (5::nat) (hosted ''H'') =
     (hosted ''H'', [IoEmit (ProductUploadComplete (Selected 5) ''H'')]) \<and>
   ''H'' \<in> recipients {''H'', ''V''}
      (IoEmit (ProductUploadComplete (Selected 5) ''H'') :: nat emission)"
  by (simp add: two_uploads_flush) (simp add: browse_selection_def hosted_def)

text \<open>
  Claim C7 fails for a request id that is a name on \<^verbatim>\<open>Object.prototype\<close>: with no
  request pending, release-host with the id \<^verbatim>\<open>constructor\<close> passes the test
  \<^verbatim>\<open>if (pendingRequests[requestId])\<close>, sets the host to \<^verbatim>\<open>undefined\<close> and broadcasts
  host-changed to all.
\<close>

theorem release_host_inherited_name:
  "map_of (pendingRequests (hosted ''A'')) ''constructor'' = None \<and>
   (release_host ''constructor'' (hosted ''A'') :: state \<times> nat emission list) =
     ((hosted ''A'')\<lparr>hostSocketId := Undefined\<rparr>, [IoEmit (HostChanged Undefined)]) \<and>
   recipients {''A'', ''B''} (IoEmit (HostChanged Undefined) :: nat emission) = {''A'', ''B''}"
  by (simp add: release_host_def js_get_def object_prototype_def hosted_def initial_def)

end
